theory Spec2Isabelle
  imports Complex_Main "HOL-Library.AList"
begin

section \<open>JavaScript numbers\<close>

text \<open>
  A JavaScript number is an IEEE 754 binary64 value: a finite one, given here by the
  real number it denotes, or one of the infinities, or NaN. (The sign of zero does not
  show in sums and comparisons.) An arithmetic operation returns the exact result rounded
  to the nearest binary64 value, ties to the even significand, and an infinity when the
  rounded result is out of range.

  \<open>pow2 e\<close> is 2 to the power \<open>e\<close>. \<open>binade x\<close> is the exponent \<open>e\<close> with
  \<open>pow2 e \<le> x < pow2 (e + 1)\<close>, kept within the exponents \<open>-1022\<close> to \<open>1023\<close> of
  binary64; the binary64 values of that binade are the multiples of \<open>pow2 (e - 52)\<close>.
  \<open>round64\<close> rounds a real number to binary64.
\<close>

datatype number = Num real | PosInf | NegInf | NaN

definition pow2 :: "int \<Rightarrow> real" where
  "pow2 e = (if 0 \<le> e then 2 ^ nat e else 1 / 2 ^ nat (- e))"

function exp_up :: "real \<Rightarrow> int \<Rightarrow> int" where
  "exp_up x e = (if e < 1023 \<and> pow2 (e + 1) \<le> x then exp_up x (e + 1) else e)"
  by pat_completeness auto
termination
  by (relation "measure (\<lambda>(x, e). nat (1023 - e))") auto

declare exp_up.simps [simp del]

function exp_down :: "real \<Rightarrow> int \<Rightarrow> int" where
  "exp_down x e = (if - 1022 < e \<and> x < pow2 e then exp_down x (e - 1) else e)"
  by pat_completeness auto
termination
  by (relation "measure (\<lambda>(x, e). nat (e + 1022))") auto

declare exp_down.simps [simp del]

definition binade :: "real \<Rightarrow> int" where
  "binade x = (if 1 \<le> x then exp_up x 0 else exp_down x 0)"

definition round_half_even :: "real \<Rightarrow> int" where
  "round_half_even q =
     (let f = \<lfloor>q\<rfloor>; r = q - of_int f
      in if r < 1 / 2 then f
         else if r > 1 / 2 then f + 1
         else if even f then f else f + 1)"

definition round64 :: "real \<Rightarrow> number" where
  "round64 x =
     (if x = 0 then Num 0
      else (let a = \<bar>x\<bar>;
                e = binade a;
                ulp = pow2 (e - 52);
                n = round_half_even (a / ulp)
            in if e = 1023 \<and> n \<ge> 2 ^ 53 then (if x > 0 then PosInf else NegInf)
               else Num (sgn x * of_int n * ulp)))"

fun js_neg :: "number \<Rightarrow> number" where
  "js_neg (Num x) = Num (- x)"
| "js_neg PosInf = NegInf"
| "js_neg NegInf = PosInf"
| "js_neg NaN = NaN"

fun js_add :: "number \<Rightarrow> number \<Rightarrow> number" where
  "js_add NaN b = NaN"
| "js_add a NaN = NaN"
| "js_add PosInf NegInf = NaN"
| "js_add NegInf PosInf = NaN"
| "js_add PosInf b = PosInf"
| "js_add a PosInf = PosInf"
| "js_add NegInf b = NegInf"
| "js_add a NegInf = NegInf"
| "js_add (Num x) (Num y) = round64 (x + y)"

definition js_sub :: "number \<Rightarrow> number \<Rightarrow> number" where
  "js_sub a b = js_add a (js_neg b)"

fun js_le :: "number \<Rightarrow> number \<Rightarrow> bool" where
  "js_le NaN b = False"
| "js_le a NaN = False"
| "js_le NegInf b = True"
| "js_le a PosInf = True"
| "js_le PosInf b = False"
| "js_le a NegInf = False"
| "js_le (Num x) (Num y) = (x \<le> y)"

definition js_ge :: "number \<Rightarrow> number \<Rightarrow> bool" where
  "js_ge a b = js_le b a"

section \<open>Cards and the card manager (class Card, class CardManager)\<close>

text \<open>
  A card object carries the fields set by the constructor of class \<open>Card\<close>. A position
  is the real number that the finite binary64 value in the field denotes (the program
  creates cards at finite positions only); the arithmetic on positions is the rounded
  arithmetic of JavaScript numbers. The layer is an integer, the id and the type are
  naturals (ids count up from 0, types index the icon table and the keys of the type
  table of the slot manager). The DOM element of a card is presentation only and is left
  out.
\<close>

record card =
  cid :: nat
  ctype :: nat
  cx :: real
  cy :: real
  layer :: int
  isDisabled :: bool
  inSlot :: bool

definition new_Card :: "nat \<Rightarrow> nat \<Rightarrow> real \<Rightarrow> real \<Rightarrow> int \<Rightarrow> card" where
  "new_Card i t x y l =
     \<lparr>cid = i, ctype = t, cx = x, cy = y, layer = l, isDisabled = False, inSlot = False\<rparr>"

definition disable :: "card \<Rightarrow> card" where
  "disable c = c\<lparr>isDisabled := True\<rparr>"

definition enable :: "card \<Rightarrow> card" where
  "enable c = c\<lparr>isDisabled := False\<rparr>"

definition moveToSlot :: "card \<Rightarrow> card" where
  "moveToSlot c = c\<lparr>inSlot := True\<rparr>"

definition destroy :: "card \<Rightarrow> card" where
  "destroy c = c\<lparr>inSlot := False\<rparr>"

text \<open>
  \<open>CardManager.checkOverlap\<close>, with \<open>cardSize = 70\<close> and \<open>offset = 5\<close>;
  \<open>card1.x + cardSize - offset\<close> is \<open>(card1.x + cardSize) - offset\<close>, each operation
  being rounded.
\<close>

definition checkOverlap :: "card \<Rightarrow> card \<Rightarrow> bool" where
  "checkOverlap card1 card2 =
     (let cardSize = Num 70; offset = Num 5
      in \<not> (js_le (js_sub (js_add (Num (cx card1)) cardSize) offset) (Num (cx card2)) \<or>
             js_ge (js_add (Num (cx card1)) offset) (js_add (Num (cx card2)) cardSize) \<or>
             js_le (js_sub (js_add (Num (cy card1)) cardSize) offset) (Num (cy card2)) \<or>
             js_ge (js_add (Num (cy card1)) offset) (js_add (Num (cy card2)) cardSize)))"

text \<open>
  A coordinate for which the three sums that \<open>checkOverlap\<close> forms from it are exact:
  no rounding takes place.
\<close>

definition exact_sums :: "real \<Rightarrow> bool" where
  "exact_sums x \<longleftrightarrow>
     js_add (Num x) (Num 70) = Num (x + 70) \<and>
     js_sub (Num (x + 70)) (Num 5) = Num (x + 65) \<and>
     js_add (Num x) (Num 5) = Num (x + 5)"




text \<open>
  Class \<open>CardManager\<close>. The field \<open>cards\<close> is a JavaScript \<open>Map\<close> from id to card
  object; it is modelled as an association list in insertion order (\<open>Map.set\<close> on a new
  key appends, \<open>Map.delete\<close> removes the entry). An object of the map is referred to by
  the key it is stored under.
\<close>

record CardManager =
  cards :: "(nat \<times> card) list"
  nextId :: nat

definition new_CardManager :: CardManager where
  "new_CardManager = \<lparr>cards = [], nextId = 0\<rparr>"

definition createCard :: "nat \<Rightarrow> real \<Rightarrow> real \<Rightarrow> int \<Rightarrow> CardManager \<Rightarrow> card \<times> CardManager" where
  "createCard t x y l cm =
     (let c = new_Card (nextId cm) t x y l
      in (c, cm\<lparr>cards := AList.update (cid c) c (cards cm), nextId := nextId cm + 1\<rparr>))"

definition getCard :: "CardManager \<Rightarrow> nat \<Rightarrow> card option" where
  "getCard cm i = map_of (cards cm) i"

definition getAllCards :: "CardManager \<Rightarrow> card list" where
  "getAllCards cm = map snd (cards cm)"

definition removeCard :: "nat \<Rightarrow> CardManager \<Rightarrow> CardManager" where
  "removeCard i cm =
     (case map_of (cards cm) i of
        None \<Rightarrow> cm
      | Some c \<Rightarrow> cm\<lparr>cards := AList.delete i (cards cm)\<rparr>)"

definition clearAll :: "CardManager \<Rightarrow> CardManager" where
  "clearAll cm = cm\<lparr>cards := [], nextId := 0\<rparr>"

text \<open>
  The inner \<open>for (const otherCard of cards)\<close> loop of \<open>updateCardStates\<close>, with its two
  \<open>continue\<close> statements and its \<open>break\<close>; the result is the final value of
  \<open>isCovered\<close>.
\<close>

fun isCovered :: "card \<Rightarrow> card list \<Rightarrow> bool" where
  "isCovered c [] = False"
| "isCovered c (otherCard # rest) =
     (if layer otherCard \<le> layer c then isCovered c rest
      else if inSlot otherCard then isCovered c rest
      else if checkOverlap c otherCard then True
      else isCovered c rest)"

text \<open>
  \<open>updateCardStates\<close>: the array of the non-slotted cards, sorted by layer (the sort of
  JavaScript arrays is stable, as \<open>sort_key\<close> is), then one pass that disables or enables
  each card of the array in the map.
\<close>

definition updateCardStates :: "CardManager \<Rightarrow> CardManager" where
  "updateCardStates cm =
     (let arr = sort_key (\<lambda>(k, c). layer c) (filter (\<lambda>(k, c). \<not> inSlot c) (cards cm))
      in cm\<lparr>cards :=
           fold (\<lambda>(k, c) m.
                  if isCovered c (map snd arr) then AList.map_entry k disable m
                  else AList.map_entry k enable m)
                arr (cards cm)\<rparr>)"

definition getClickabledCards :: "CardManager \<Rightarrow> card list" where
  "getClickabledCards cm = filter (\<lambda>c. \<not> inSlot c \<and> \<not> isDisabled c) (getAllCards cm)"

section \<open>The slot manager (class SlotManager)\<close>

text \<open>
  A slot holds \<open>null\<close> or the object \<open>{id, type, card}\<close> passed to \<open>addCard\<close>; the
  \<open>card\<close> field is the card object with that id. The slot elements of the page are
  presentation only.
\<close>

record cardData =
  sid :: nat
  stype :: nat

record SlotManager =
  slots :: "cardData option list"
  maxSlots :: nat
  initialized :: bool

definition new_SlotManager :: SlotManager where
  "new_SlotManager = \<lparr>slots = [], maxSlots = 7, initialized = False\<rparr>"

definition initialize :: "SlotManager \<Rightarrow> SlotManager" where
  "initialize s =
     (if initialized s then s
      else s\<lparr>slots := replicate (maxSlots s) None, initialized := True\<rparr>)"

text \<open>\<open>Array.prototype.findIndex\<close>; \<open>None\<close> stands for the result \<open>-1\<close>.\<close>

fun findIndex :: "('a \<Rightarrow> bool) \<Rightarrow> 'a list \<Rightarrow> nat option" where
  "findIndex P [] = None"
| "findIndex P (x # xs) = (if P x then Some 0 else map_option Suc (findIndex P xs))"

text \<open>
  The table \<open>typeCount\<close> of \<open>checkForElimination\<close>: for each type the slot indices that
  hold it, filled by one pass over the slots from index \<open>i\<close> on.
\<close>

fun countTypes :: "nat \<Rightarrow> cardData option list \<Rightarrow> (nat \<times> nat list) list \<Rightarrow> (nat \<times> nat list) list" where
  "countTypes i [] tc = tc"
| "countTypes i (None # rest) tc = countTypes (Suc i) rest tc"
| "countTypes i (Some d # rest) tc =
     countTypes (Suc i) rest
       (AList.update (stype d)
          ((case map_of tc (stype d) of None \<Rightarrow> [] | Some idxs \<Rightarrow> idxs) @ [i]) tc)"

text \<open>
  \<open>for (const type in typeCount)\<close>: the keys of the table are card types, that is small
  non-negative integers (0 to 6), and JavaScript enumerates integer keys in ascending
  numeric order; \<open>parseInt\<close> gives the type back.
\<close>

definition for_in :: "(nat \<times> 'v) list \<Rightarrow> (nat \<times> 'v) list" where
  "for_in tc = sort_key fst tc"

text \<open>
  A listener of the event \<open>cardsEliminated\<close> runs synchronously inside
  \<open>dispatchEvent\<close>: it gets the type and the indices of the event and sees the slot array
  as it is at that moment, before the three slots are cleared. What it changes is the
  state \<open>'w\<close> outside the slot manager.
\<close>

type_synonym 'w listener = "nat \<Rightarrow> nat list \<Rightarrow> cardData option list \<Rightarrow> 'w \<Rightarrow> 'w"

fun eliminate :: "'w listener \<Rightarrow> (nat \<times> nat list) list \<Rightarrow> cardData option list \<Rightarrow> 'w \<Rightarrow> bool
    \<Rightarrow> cardData option list \<times> 'w \<times> bool" where
  "eliminate h [] sl w eliminated = (sl, w, eliminated)"
| "eliminate h ((t, idxs) # rest) sl w eliminated =
     (if length idxs \<ge> 3 then
        (let indicesToRemove = take 3 idxs;
             w' = h t indicesToRemove sl w;
             sl' = fold (\<lambda>index s. s[index := None]) indicesToRemove sl
         in eliminate h rest sl' w' True)
      else eliminate h rest sl w eliminated)"

definition compactSlots :: "cardData option list \<Rightarrow> cardData option list" where
  "compactSlots sl =
     (let cs = filter (\<lambda>slot. slot \<noteq> None) sl
      in fold (\<lambda>(index, c) s. s[index := c]) (enumerate 0 cs) (replicate (length sl) None))"

definition checkForElimination :: "'w listener \<Rightarrow> SlotManager \<Rightarrow> 'w \<Rightarrow> bool \<times> SlotManager \<times> 'w" where
  "checkForElimination h s w =
     (let typeCount = countTypes 0 (slots s) [];
          (sl, w', eliminated) = eliminate h (for_in typeCount) (slots s) w False
      in if eliminated then (True, s\<lparr>slots := compactSlots sl\<rparr>, w')
         else (False, s\<lparr>slots := sl\<rparr>, w'))"

definition addCard :: "'w listener \<Rightarrow> cardData \<Rightarrow> SlotManager \<Rightarrow> 'w \<Rightarrow> bool \<times> SlotManager \<times> 'w" where
  "addCard h d s w =
     (case findIndex (\<lambda>slot. slot = None) (slots s) of
        None \<Rightarrow> (False, s, w)
      | Some emptyIndex \<Rightarrow>
          (let s1 = s\<lparr>slots := (slots s)[emptyIndex := Some d]\<rparr>;
               (eliminated, s2, w2) = checkForElimination h s1 w
           in (True, s2, w2)))"

definition isFull :: "SlotManager \<Rightarrow> bool" where
  "isFull s = list_all (\<lambda>slot. slot \<noteq> None) (slots s)"

definition getCardCount :: "SlotManager \<Rightarrow> nat" where
  "getCardCount s = length (filter (\<lambda>slot. slot \<noteq> None) (slots s))"

definition getEmptySlotCount :: "SlotManager \<Rightarrow> nat" where
  "getEmptySlotCount s = length (filter (\<lambda>slot. slot = None) (slots s))"

fun tally :: "cardData option list \<Rightarrow> (nat \<times> nat) list \<Rightarrow> (nat \<times> nat) list" where
  "tally [] tc = tc"
| "tally (None # rest) tc = tally rest tc"
| "tally (Some d # rest) tc =
     tally rest (AList.update (stype d) ((case map_of tc (stype d) of None \<Rightarrow> 0 | Some n \<Rightarrow> n) + 1) tc)"

definition canContinue :: "SlotManager \<Rightarrow> bool" where
  "canContinue s =
     (if isFull s then list_ex (\<lambda>(t, n). n \<ge> 3) (for_in (tally (slots s) []))
      else True)"

definition slots_clearAll :: "SlotManager \<Rightarrow> SlotManager" where
  "slots_clearAll s = s\<lparr>slots := replicate (length (slots s)) None\<rparr>"

text \<open>
  The slot manager on its own: the state outside it is the list of the events it has
  dispatched, each with its type and its indices, in the order of dispatch.
\<close>

definition record_event :: "((nat \<times> nat list) list) listener" where
  "record_event t idxs sl evs = evs @ [(t, idxs)]"

section \<open>The score manager (class ScoreManager)\<close>

text \<open>
  The browser's \<open>localStorage\<close> holds the two items the program uses. When it is not
  available every access throws, and the program catches the exception and logs it.
\<close>

record entry =
  e_rank :: int
  e_score :: int
  e_level :: int
  e_combo :: int
  e_date :: string
  e_playerName :: string

record localStorage =
  available :: bool
  tileGameHighScore :: "int option"
  tileGameLeaderboard :: "entry list option"

record ScoreManager =
  currentScore :: int
  highScore :: int
  combo :: int
  maxCombo :: int
  eliminationCount :: int

definition loadHighScore :: "localStorage \<Rightarrow> ScoreManager \<Rightarrow> ScoreManager" where
  "loadHighScore ls sm =
     (if available ls then
        (case tileGameHighScore ls of None \<Rightarrow> sm | Some saved \<Rightarrow> sm\<lparr>highScore := saved\<rparr>)
      else sm)"

definition new_ScoreManager :: "localStorage \<Rightarrow> ScoreManager" where
  "new_ScoreManager ls =
     loadHighScore ls
       \<lparr>currentScore = 0, highScore = 0, combo = 0, maxCombo = 0, eliminationCount = 0\<rparr>"

definition saveHighScore :: "ScoreManager \<Rightarrow> localStorage \<Rightarrow> localStorage" where
  "saveHighScore sm ls =
     (if available ls then ls\<lparr>tileGameHighScore := Some (highScore sm)\<rparr> else ls)"

definition addEliminationScore :: "int \<Rightarrow> ScoreManager \<Rightarrow> localStorage \<Rightarrow> int \<times> ScoreManager \<times> localStorage" where
  "addEliminationScore cardsEliminated sm ls =
     (let sm1 = sm\<lparr>eliminationCount := eliminationCount sm + 1\<rparr>;
          baseScore = cardsEliminated * 10;
          sm2 = sm1\<lparr>combo := combo sm1 + 1\<rparr>;
          comboBonus = combo sm2 * 20;
          totalScore = baseScore + comboBonus;
          sm3 = sm2\<lparr>currentScore := currentScore sm2 + totalScore\<rparr>;
          sm4 = (if combo sm3 > maxCombo sm3 then sm3\<lparr>maxCombo := combo sm3\<rparr> else sm3)
      in if currentScore sm4 > highScore sm4 then
           (let sm5 = sm4\<lparr>highScore := currentScore sm4\<rparr>
            in (totalScore, sm5, saveHighScore sm5 ls))
         else (totalScore, sm4, ls))"

definition resetCombo :: "ScoreManager \<Rightarrow> ScoreManager" where
  "resetCombo sm = sm\<lparr>combo := 0\<rparr>"

definition getLevelCompletionBonus :: "int \<Rightarrow> ScoreManager \<Rightarrow> localStorage \<Rightarrow> int \<times> ScoreManager \<times> localStorage" where
  "getLevelCompletionBonus lvl sm ls =
     (let bonus = lvl * 100 + eliminationCount sm * 5;
          sm1 = sm\<lparr>currentScore := currentScore sm + bonus\<rparr>
      in if currentScore sm1 > highScore sm1 then
           (let sm2 = sm1\<lparr>highScore := currentScore sm1\<rparr>
            in (bonus, sm2, saveHighScore sm2 ls))
         else (bonus, sm1, ls))"

definition score_reset :: "ScoreManager \<Rightarrow> ScoreManager" where
  "score_reset sm = sm\<lparr>currentScore := 0, combo := 0, maxCombo := 0, eliminationCount := 0\<rparr>"

text \<open>A storage that is available and holds nothing yet.\<close>

definition empty_storage :: localStorage where
  "empty_storage = \<lparr>available = True, tileGameHighScore = None, tileGameLeaderboard = None\<rparr>"

section \<open>Sequences of operations\<close>

text \<open>
  The public operations of the slot manager that change its state, and a run of a
  sequence of them. The slot manager runs on its own here, its events being recorded.
\<close>

datatype slot_op =
    Initialize
  | AddCard cardData
  | CheckForElimination
  | CompactSlots
  | SlotsClearAll

fun slot_step :: "slot_op \<Rightarrow> SlotManager \<Rightarrow> SlotManager" where
  "slot_step Initialize s = initialize s"
| "slot_step (AddCard d) s = fst (snd (addCard record_event d s []))"
| "slot_step CheckForElimination s = fst (snd (checkForElimination record_event s []))"
| "slot_step CompactSlots s = s\<lparr>slots := compactSlots (slots s)\<rparr>"
| "slot_step SlotsClearAll s = slots_clearAll s"

definition slot_run :: "slot_op list \<Rightarrow> SlotManager \<Rightarrow> SlotManager" where
  "slot_run ops s = fold slot_step ops s"

text \<open>
  What holds of the slot array in every state of a run: it is empty before
  \<open>initialize\<close> and has \<open>maxSlots = 7\<close> slots after it.
\<close>

definition slot_inv :: "SlotManager \<Rightarrow> bool" where
  "slot_inv s \<longleftrightarrow> maxSlots s = 7 \<and> length (slots s) = (if initialized s then 7 else 0)"

text \<open>
  The operations of the card manager that change its state. A run returns the final
  state together with the ids given to the cards it created, in the order of creation.
\<close>

datatype card_op =
    CreateCard nat real real int
  | RemoveCard nat
  | ClearAll

fun card_run :: "card_op list \<Rightarrow> CardManager \<Rightarrow> CardManager \<times> nat list" where
  "card_run [] cm = (cm, [])"
| "card_run (CreateCard t x y l # ops) cm =
     (let (c, cm1) = createCard t x y l cm;
          (cm2, ids) = card_run ops cm1
      in (cm2, cid c # ids))"
| "card_run (RemoveCard i # ops) cm = card_run ops (removeCard i cm)"
| "card_run (ClearAll # ops) cm = card_run ops (clearAll cm)"

section \<open>The level manager (class LevelManager)\<close>

record levelConfig =
  lc_level :: int
  cardTypes :: int
  cardsPerType :: int
  layers :: int
  offsetX :: real
  offsetY :: real
  cardGap :: real
  maxCards :: int

text \<open>
  The configuration \<open>generateLevels\<close> pushes for one level; \<open>Math.floor(level / n)\<close> is
  \<open>div\<close> on the integers.
\<close>

definition levelConfigOf :: "int \<Rightarrow> levelConfig" where
  "levelConfigOf level =
     \<lparr>lc_level = level,
      cardTypes = min 7 (3 + level div 2),
      cardsPerType = 3 + level div 3,
      layers = min 5 (1 + level div 2),
      offsetX = 20, offsetY = 20, cardGap = 10,
      maxCards = min 50 (15 + level * 5)\<rparr>"

definition generateLevels :: "int \<Rightarrow> levelConfig list" where
  "generateLevels maxLevel = map levelConfigOf [1..maxLevel]"

record LevelManager =
  currentLevel :: int
  maxLevel :: int
  levels :: "levelConfig list"

definition new_LevelManager :: LevelManager where
  "new_LevelManager = \<lparr>currentLevel = 1, maxLevel = 10, levels = generateLevels 10\<rparr>"

text \<open>Reading an array at an index; \<open>None\<close> stands for \<open>undefined\<close>.\<close>

definition array_get :: "'a list \<Rightarrow> int \<Rightarrow> 'a option" where
  "array_get xs i = (if 0 \<le> i \<and> i < int (length xs) then Some (xs ! nat i) else None)"

definition getCurrentLevelConfig :: "LevelManager \<Rightarrow> levelConfig option" where
  "getCurrentLevelConfig lm =
     (if currentLevel lm > maxLevel lm then array_get (levels lm) (maxLevel lm - 1)
      else array_get (levels lm) (currentLevel lm - 1))"

definition getLevelConfig :: "LevelManager \<Rightarrow> int \<Rightarrow> levelConfig option" where
  "getLevelConfig lm level =
     (if level < 1 \<or> level > maxLevel lm then None else array_get (levels lm) (level - 1))"

definition nextLevel :: "LevelManager \<Rightarrow> bool \<times> LevelManager" where
  "nextLevel lm =
     (if currentLevel lm < maxLevel lm then (True, lm\<lparr>currentLevel := currentLevel lm + 1\<rparr>)
      else if currentLevel lm = maxLevel lm then (False, lm\<lparr>currentLevel := maxLevel lm\<rparr>)
      else (False, lm))"

definition resetToFirstLevel :: "LevelManager \<Rightarrow> LevelManager" where
  "resetToFirstLevel lm = lm\<lparr>currentLevel := 1\<rparr>"

text \<open>
  The construction of the array \<open>cardTypes\<close> in \<open>generateLevelLayout\<close> (the array
  is called \<open>typeList\<close> below, \<open>cardTypes\<close> being the field of the configuration): the inner loop
  over \<open>group\<close> (here \<open>grp\<close>), which pushes three equal types, and the outer loop over \<open>type\<close>.
\<close>

function groupLoop :: "int \<Rightarrow> int \<Rightarrow> nat \<Rightarrow> nat list \<Rightarrow> nat list" where
  "groupLoop grp groupsPerType type acc =
     (if grp < groupsPerType
      then groupLoop (grp + 1) groupsPerType type (acc @ [type, type, type])
      else acc)"
  by pat_completeness auto
termination
  by (relation "measure (\<lambda>(grp, groupsPerType, type, acc). nat (groupsPerType - grp))") auto

declare groupLoop.simps [simp del]

function typeLoop :: "int \<Rightarrow> levelConfig \<Rightarrow> nat list \<Rightarrow> nat list" where
  "typeLoop type config acc =
     (if type < cardTypes config
      then typeLoop (type + 1) config (groupLoop 0 (cardsPerType config) (nat type) acc)
      else acc)"
  by pat_completeness auto
termination
  by (relation "measure (\<lambda>(type, config, acc). nat (cardTypes config - type))") auto

declare typeLoop.simps [simp del]

definition buildCardTypes :: "levelConfig \<Rightarrow> nat list" where
  "buildCardTypes config = typeLoop 0 config []"

text \<open>
  \<open>Math.ceil(a / b)\<close> for integers \<open>a\<close> and \<open>b > 0\<close>, computed on the integers.
  \<open>Array.prototype.pop\<close> removes the last element and does nothing on an empty array.
\<close>

definition ceil_div :: "int \<Rightarrow> int \<Rightarrow> int" where
  "ceil_div a b = - ((- a) div b)"

definition pop :: "'a list \<Rightarrow> 'a list" where
  "pop xs = butlast xs"

function popLoop :: "int \<Rightarrow> int \<Rightarrow> 'a list \<Rightarrow> 'a list" where
  "popLoop i removeGroups xs =
     (if i < removeGroups then popLoop (i + 1) removeGroups (pop (pop (pop xs))) else xs)"
  by pat_completeness auto
termination
  by (relation "measure (\<lambda>(i, removeGroups, xs). nat (removeGroups - i))") auto

declare popLoop.simps [simp del]

definition trimCardTypes :: "levelConfig \<Rightarrow> nat list \<Rightarrow> nat list" where
  "trimCardTypes config typeList =
     (let totalCards = int (length typeList)
      in if totalCards > maxCards config then
           (let removeCount = totalCards - maxCards config;
                removeGroups = ceil_div removeCount 3
            in popLoop 0 removeGroups typeList)
         else typeList)"

text \<open>
  \<open>Math.random()\<close>: the program draws from a sequence of numbers in \<open>[0, 1)\<close>; the
  sequence is a parameter \<open>rnd\<close>, and each function that draws gets the index of the
  next draw and returns the index after its last one.

  \<open>shuffleArray\<close> (Fisher and Yates): for \<open>i\<close> from the last index down to 1, swap
  the elements at \<open>i\<close> and \<open>j = Math.floor(Math.random() * (i + 1))\<close>.
\<close>

fun shuffleLoop :: "(nat \<Rightarrow> real) \<Rightarrow> nat \<Rightarrow> 'a list \<Rightarrow> nat \<Rightarrow> 'a list \<times> nat" where
  "shuffleLoop rnd 0 xs k = (xs, k)"
| "shuffleLoop rnd (Suc i') xs k =
     (let i = Suc i';
          j = nat \<lfloor>rnd k * (real i + 1)\<rfloor>
      in shuffleLoop rnd i' (xs[i := xs ! j, j := xs ! i]) (Suc k))"

definition shuffleArray :: "(nat \<Rightarrow> real) \<Rightarrow> 'a list \<Rightarrow> nat \<Rightarrow> 'a list \<times> nat" where
  "shuffleArray rnd xs k = shuffleLoop rnd (length xs - 1) xs k"

text \<open>
  Errors of the JavaScript run time. An identifier that no enclosing scope binds is
  looked up in the global scope, and reading it there throws a \<open>ReferenceError\<close> when
  the global scope has no such binding. The numeric bindings of the global scope are a
  parameter; the scripts of the repository create none (they declare classes and set
  \<open>window.game\<close>).
\<close>

datatype js_error = ReferenceError string

type_synonym global_scope = "string \<Rightarrow> real option"

definition read_global :: "global_scope \<Rightarrow> string \<Rightarrow> js_error + real" where
  "read_global g name = (case g name of None \<Rightarrow> Inl (ReferenceError name) | Some v \<Rightarrow> Inr v)"

definition script_globals :: global_scope where
  "script_globals = (\<lambda>name. None)"

record position =
  pos_x :: real
  pos_y :: real
  pos_layer :: int

text \<open>
  \<open>generateCardPositions(count, layers, cols, rows, areaWidth, areaHeight, cardSize, gap,
  offsetX, offsetY)\<close>. Its parameters are gathered in a record. The body reads
  \<open>effectiveWidth\<close> and \<open>effectiveHeight\<close>, which are neither parameters nor local
  variables of this method (they are local constants of \<open>generateLevelLayout\<close>), so
  they are read from the global scope. The loop variable \<open>layer\<close> is \<open>layerNo\<close> here.
  The formulas of \<open>x\<close> and \<open>y\<close> are written with the exact operations on the reals;
  whether the method throws and how many positions it returns do not depend on them.
\<close>

record positionArgs =
  pa_count :: int
  pa_layers :: int
  pa_cols :: int
  pa_rows :: int
  pa_areaWidth :: real
  pa_areaHeight :: real
  pa_cardSize :: real
  pa_gap :: real
  pa_offsetX :: real
  pa_offsetY :: real

function cardLoop :: "global_scope \<Rightarrow> (nat \<Rightarrow> real) \<Rightarrow> positionArgs \<Rightarrow> int \<Rightarrow> int \<Rightarrow> int \<Rightarrow> int
    \<Rightarrow> int \<Rightarrow> position list \<Rightarrow> nat \<Rightarrow> js_error + (position list \<times> nat)" where
  "cardLoop g rnd a layerNo layerCols layerRows cardsInLayer i positions k =
     (if i < cardsInLayer then
        (let col = rnd k * (real_of_int layerCols - 1);
             row = rnd (k + 1) * (real_of_int layerRows - 1)
         in case read_global g ''effectiveWidth'' of
              Inl e \<Rightarrow> Inl e
            | Inr effectiveWidth \<Rightarrow>
                (let layerStartX = (effectiveWidth - real_of_int layerCols * (pa_cardSize a + pa_gap a)) / 2
                 in case read_global g ''effectiveHeight'' of
                      Inl e \<Rightarrow> Inl e
                    | Inr effectiveHeight \<Rightarrow>
                        (let layerStartY = (effectiveHeight - real_of_int layerRows * (pa_cardSize a + pa_gap a)) / 2;
                             x = pa_offsetX a + layerStartX + col * (pa_cardSize a + pa_gap a);
                             y = pa_offsetY a + layerStartY + row * (pa_cardSize a + pa_gap a);
                             positions' = positions @ [\<lparr>pos_x = x, pos_y = y, pos_layer = layerNo\<rparr>]
                         in if int (length positions') \<ge> pa_count a then Inr (positions', k + 2)
                            else cardLoop g rnd a layerNo layerCols layerRows cardsInLayer (i + 1)
                                   positions' (k + 2))))
      else Inr (positions, k))"
  by pat_completeness auto
termination
  by (relation "measure (\<lambda>(g, rnd, a, layerNo, layerCols, layerRows, cardsInLayer, i, positions, k).
                   nat (cardsInLayer - i))") auto

declare cardLoop.simps [simp del]

function layerLoop :: "global_scope \<Rightarrow> (nat \<Rightarrow> real) \<Rightarrow> positionArgs \<Rightarrow> int \<Rightarrow> position list \<Rightarrow> nat
    \<Rightarrow> js_error + (position list \<times> nat)" where
  "layerLoop g rnd a layerNo positions k =
     (if layerNo < pa_layers a then
        (let cardsInLayer = ceil_div (pa_count a) (pa_layers a);
             layerOffset = layerNo * 2;
             layerCols = max 3 (pa_cols a - layerOffset);
             layerRows = max 3 (pa_rows a - layerOffset)
         in case cardLoop g rnd a layerNo layerCols layerRows cardsInLayer 0 positions k of
              Inl e \<Rightarrow> Inl e
            | Inr (positions', k') \<Rightarrow>
                if int (length positions') \<ge> pa_count a then Inr (positions', k')
                else layerLoop g rnd a (layerNo + 1) positions' k')
      else Inr (positions, k))"
  by pat_completeness auto
termination
  by (relation "measure (\<lambda>(g, rnd, a, layerNo, positions, k). nat (pa_layers a - layerNo))") auto

declare layerLoop.simps [simp del]

definition generateCardPositions :: "global_scope \<Rightarrow> (nat \<Rightarrow> real) \<Rightarrow> positionArgs \<Rightarrow> nat
    \<Rightarrow> js_error + (position list \<times> nat)" where
  "generateCardPositions g rnd a k = layerLoop g rnd a 0 [] k"

text \<open>
  The card area of the page gives its size. \<open>createCards\<close> is the final
  \<open>cardTypes.forEach\<close> of \<open>generateLevelLayout\<close>, which creates a card for an index
  only if the index is below \<open>positions.length\<close>.
\<close>

record cardArea =
  offsetWidth :: real
  offsetHeight :: real

fun createCards :: "nat list \<Rightarrow> nat \<Rightarrow> position list \<Rightarrow> CardManager \<Rightarrow> CardManager" where
  "createCards [] index positions cm = cm"
| "createCards (t # rest) index positions cm =
     (if index < length positions then
        (let pos = positions ! index;
             (c, cm') = createCard t (pos_x pos) (pos_y pos) (pos_layer pos) cm
         in createCards rest (Suc index) positions cm')
      else createCards rest (Suc index) positions cm)"

definition generateLevelLayout :: "global_scope \<Rightarrow> (nat \<Rightarrow> real) \<Rightarrow> nat \<Rightarrow> levelConfig \<Rightarrow> CardManager
    \<Rightarrow> cardArea \<Rightarrow> js_error + (CardManager \<times> nat)" where
  "generateLevelLayout g rnd k config cm area =
     (let cm0 = clearAll cm;
          cardTypes0 = trimCardTypes config (buildCardTypes config);
          (cardTypes1, k1) = shuffleArray rnd cardTypes0 k;
          areaWidth = (if offsetWidth area = 0 then 500 else offsetWidth area);
          areaHeight = (if offsetHeight area = 0 then 400 else offsetHeight area);
          cardSize = 70;
          effectiveWidth = (if areaWidth > 0 then areaWidth else 500);
          effectiveHeight = (if areaHeight > 0 then areaHeight else 400);
          cols = \<lfloor>(effectiveWidth - offsetX config * 2) / (cardSize + cardGap config)\<rfloor>;
          rows = \<lfloor>(effectiveHeight - offsetY config * 2) / (cardSize + cardGap config)\<rfloor>
      in case generateCardPositions g rnd
                \<lparr>pa_count = int (length cardTypes1), pa_layers = layers config, pa_cols = cols,
                 pa_rows = rows, pa_areaWidth = areaWidth, pa_areaHeight = areaHeight,
                 pa_cardSize = cardSize, pa_gap = cardGap config, pa_offsetX = offsetX config,
                 pa_offsetY = offsetY config\<rparr> k1 of
           Inl e \<Rightarrow> Inl e
         | Inr (positions, k2) \<Rightarrow>
             Inr (updateCardStates (createCards cardTypes1 0 positions cm0), k2))"

section \<open>The leaderboard manager (class LeaderboardManager)\<close>

text \<open>
  The argument of \<open>addScore\<close> is an object whose fields may be missing. \<open>v || d\<close> gives
  \<open>d\<close> when \<open>v\<close> is missing, 0 or the empty string.
\<close>

record scoreData =
  sd_score :: "int option"
  sd_level :: "int option"
  sd_combo :: "int option"
  sd_date :: "string option"
  sd_playerName :: "string option"

definition num_or :: "int option \<Rightarrow> int \<Rightarrow> int" where
  "num_or v d = (case v of None \<Rightarrow> d | Some n \<Rightarrow> if n = 0 then d else n)"

definition str_or :: "string option \<Rightarrow> string \<Rightarrow> string" where
  "str_or v d = (case v of None \<Rightarrow> d | Some s \<Rightarrow> if s = [] then d else s)"

record LeaderboardManager =
  leaderboard :: "entry list"
  maxEntries :: nat

definition loadLeaderboard :: "localStorage \<Rightarrow> LeaderboardManager \<Rightarrow> LeaderboardManager" where
  "loadLeaderboard ls lbm =
     (if available ls then
        (case tileGameLeaderboard ls of None \<Rightarrow> lbm | Some saved \<Rightarrow> lbm\<lparr>leaderboard := saved\<rparr>)
      else lbm\<lparr>leaderboard := []\<rparr>)"

definition new_LeaderboardManager :: "localStorage \<Rightarrow> LeaderboardManager" where
  "new_LeaderboardManager ls = loadLeaderboard ls \<lparr>leaderboard = [], maxEntries = 10\<rparr>"

definition saveLeaderboard :: "LeaderboardManager \<Rightarrow> localStorage \<Rightarrow> localStorage" where
  "saveLeaderboard lbm ls =
     (if available ls then ls\<lparr>tileGameLeaderboard := Some (leaderboard lbm)\<rparr> else ls)"

text \<open>
  \<open>addScore\<close>. The current time as an ISO string (\<open>now\<close>) and the random default name
  (\<open>defaultName\<close>) come from outside. The sort with the comparator
  \<open>b.score - a.score\<close> is a stable sort by descending score. The value returned is the
  one of \<open>this.leaderboard.some(entry => entry.score === entry.score && \<dots>)\<close>, where the
  parameter \<open>entry\<close> of the arrow function hides the new entry, so every entry of the
  list is compared with itself.
\<close>

definition addScore :: "string \<Rightarrow> string \<Rightarrow> scoreData \<Rightarrow> LeaderboardManager \<Rightarrow> localStorage
    \<Rightarrow> bool \<times> LeaderboardManager \<times> localStorage" where
  "addScore now defaultName sd lbm ls =
     (let new_entry = \<lparr>e_rank = 0,
                        e_score = num_or (sd_score sd) 0,
                        e_level = num_or (sd_level sd) 1,
                        e_combo = num_or (sd_combo sd) 0,
                        e_date = str_or (sd_date sd) now,
                        e_playerName = str_or (sd_playerName sd) defaultName\<rparr>;
          l1 = leaderboard lbm @ [new_entry];
          l2 = sort_key (\<lambda>e. - e_score e) l1;
          l3 = take (maxEntries lbm) l2;
          l4 = map (\<lambda>(index, e). e\<lparr>e_rank := int index + 1\<rparr>) (enumerate 0 l3);
          lbm' = lbm\<lparr>leaderboard := l4\<rparr>;
          ls' = saveLeaderboard lbm' ls
      in (list_ex (\<lambda>entry. e_score entry = e_score entry \<and> e_date entry = e_date entry \<and>
                             e_level entry = e_level entry \<and> e_combo entry = e_combo entry) l4,
          lbm', ls'))"

definition canEnterLeaderboard :: "LeaderboardManager \<Rightarrow> int \<Rightarrow> bool" where
  "canEnterLeaderboard lbm s =
     (if length (leaderboard lbm) < maxEntries lbm then True
      else s > e_score (last (leaderboard lbm)))"

section \<open>The game controller (class Game)\<close>

text \<open>
  The state of the game: its five managers, the storage of the browser, and the three
  flags. The page (card area, level display, dialogs) is presentation only. A step of
  the model is one event handler run to its end; what a handler schedules with
  \<open>setTimeout\<close> (the start of the next level after a win) is a later event.
\<close>

record Game =
  cardManager :: CardManager
  slotManager :: SlotManager
  levelManager :: LevelManager
  scoreManager :: ScoreManager
  leaderboardManager :: LeaderboardManager
  storage :: localStorage
  isPaused :: bool
  isGameOver :: bool
  isPlaying :: bool

definition gameOver :: "string \<Rightarrow> string \<Rightarrow> bool \<Rightarrow> Game \<Rightarrow> Game" where
  "gameOver now defaultName isWin g =
     (let g1 = g\<lparr>isGameOver := True, isPlaying := False\<rparr>
      in if isWin then
           (let (bonus, sm, ls) =
                  getLevelCompletionBonus (currentLevel (levelManager g1)) (scoreManager g1) (storage g1)
            in g1\<lparr>scoreManager := sm, storage := ls\<rparr>)
         else
           (let g2 = g1\<lparr>scoreManager := resetCombo (scoreManager g1)\<rparr>
            in if canEnterLeaderboard (leaderboardManager g2) (currentScore (scoreManager g2)) then
                 (let (entered, lbm, ls) =
                        addScore now defaultName
                          \<lparr>sd_score = Some (currentScore (scoreManager g2)),
                           sd_level = Some (currentLevel (levelManager g2)),
                           sd_combo = Some (maxCombo (scoreManager g2)),
                           sd_date = Some now,
                           sd_playerName = None\<rparr>
                          (leaderboardManager g2) (storage g2)
                  in g2\<lparr>leaderboardManager := lbm, storage := ls\<rparr>)
               else g2))"

definition checkWinCondition :: "string \<Rightarrow> string \<Rightarrow> Game \<Rightarrow> Game" where
  "checkWinCondition now defaultName g =
     (let remainingCards = getAllCards (cardManager g);
          cardsInPlay = filter (\<lambda>c. \<not> inSlot c) remainingCards
      in if length cardsInPlay = 0 \<and> getCardCount (slotManager g) = 0
         then gameOver now defaultName True g
         else g)"

definition checkGameState :: "string \<Rightarrow> string \<Rightarrow> Game \<Rightarrow> Game" where
  "checkGameState now defaultName g =
     (if \<not> canContinue (slotManager g) then gameOver now defaultName False g else g)"

text \<open>
  \<open>handleCardsEliminated(type, indices)\<close>, the listener of \<open>cardsEliminated\<close>. It reads
  \<open>this.slotManager.slots[slotIndex]\<close>; an index outside the array gives \<open>undefined\<close>.
\<close>

definition slot_at :: "cardData option list \<Rightarrow> nat \<Rightarrow> cardData option" where
  "slot_at sl i = (if i < length sl then sl ! i else None)"

definition handleCardsEliminated :: "string \<Rightarrow> string \<Rightarrow> nat \<Rightarrow> nat list \<Rightarrow> Game \<Rightarrow> Game" where
  "handleCardsEliminated now defaultName t indices g =
     (let (points, sm, ls) = addEliminationScore 3 (scoreManager g) (storage g);
          g1 = g\<lparr>scoreManager := sm, storage := ls\<rparr>;
          g2 = fold (\<lambda>slotIndex g'.
                       case slot_at (slots (slotManager g')) slotIndex of
                         None \<Rightarrow> g'
                       | Some slotData \<Rightarrow> g'\<lparr>cardManager := removeCard (sid slotData) (cardManager g')\<rparr>)
                    indices g1;
          g3 = g2\<lparr>cardManager := updateCardStates (cardManager g2)\<rparr>
      in checkWinCondition now defaultName g3)"

text \<open>
  The listener as the slot manager calls it: the game outside the slot manager is the
  state \<open>'w\<close>, and the listener sees the slot array of the moment of the dispatch.
\<close>

definition game_listener :: "string \<Rightarrow> string \<Rightarrow> Game listener" where
  "game_listener now defaultName t indices sl g =
     handleCardsEliminated now defaultName t indices
       (g\<lparr>slotManager := (slotManager g)\<lparr>slots := sl\<rparr>\<rparr>)"

text \<open>
  \<open>handleCardClick(card)\<close>. The card object is the one stored in the map under the key
  \<open>k\<close>; \<open>c\<close> is its state when the handler starts. \<open>card.moveToSlot(-1)\<close> changes that
  object, which the map no longer holds when the card has just been eliminated.
\<close>

definition handleCardClick :: "string \<Rightarrow> string \<Rightarrow> nat \<Rightarrow> card \<Rightarrow> Game \<Rightarrow> Game" where
  "handleCardClick now defaultName k c g =
     (let (success, sm, g') =
            addCard (game_listener now defaultName) \<lparr>sid = cid c, stype = ctype c\<rparr> (slotManager g) g;
          g1 = g'\<lparr>slotManager := sm\<rparr>
      in if success then
           (let g2 = g1\<lparr>cardManager :=
                        (cardManager g1)\<lparr>cards := AList.map_entry k moveToSlot (cards (cardManager g1))\<rparr>\<rparr>;
                g3 = g2\<lparr>cardManager := updateCardStates (cardManager g2)\<rparr>
            in checkGameState now defaultName g3)
         else g1)"

text \<open>The listener of \<open>cardClicked\<close> that \<open>bindGameEvents\<close> installs.\<close>

definition cardClicked :: "string \<Rightarrow> string \<Rightarrow> nat \<Rightarrow> Game \<Rightarrow> Game" where
  "cardClicked now defaultName cardId g =
     (if \<not> isPlaying g \<or> isPaused g then g
      else case getCard (cardManager g) cardId of
             None \<Rightarrow> g
           | Some c \<Rightarrow> if \<not> isDisabled c then handleCardClick now defaultName cardId c g else g)"

text \<open>An entry with a given rank and score, and a full list of ten of them, for examples.\<close>

definition sample_entry :: "int \<Rightarrow> int \<Rightarrow> entry" where
  "sample_entry r s =
     \<lparr>e_rank = r, e_score = s, e_level = 1, e_combo = 0, e_date = ''2025-01-01'', e_playerName = ''p''\<rparr>"

definition full_board :: LeaderboardManager where
  "full_board =
     \<lparr>leaderboard = [sample_entry 1 100, sample_entry 2 90, sample_entry 3 80, sample_entry 4 70,
                     sample_entry 5 60, sample_entry 6 50, sample_entry 7 40, sample_entry 8 30,
                     sample_entry 9 20, sample_entry 10 10],
      maxEntries = 10\<rparr>"

text \<open>
  A game with two cards in which nothing has been clicked yet, and the same game after
  the card 0 has been moved to the first slot.
\<close>

definition fresh_game :: Game where
  "fresh_game =
     \<lparr>cardManager = \<lparr>cards = [(0, new_Card 0 0 0 0 0), (1, new_Card 1 1 200 200 0)], nextId = 2\<rparr>,
      slotManager = \<lparr>slots = [None, None, None, None, None, None, None], maxSlots = 7,
                      initialized = True\<rparr>,
      levelManager = new_LevelManager,
      scoreManager = new_ScoreManager empty_storage,
      leaderboardManager = new_LeaderboardManager empty_storage,
      storage = empty_storage,
      isPaused = False, isGameOver = False, isPlaying = True\<rparr>"

definition slotted_game :: Game where
  "slotted_game =
     fresh_game
       \<lparr>cardManager := \<lparr>cards = [(0, (new_Card 0 0 0 0 0)\<lparr>inSlot := True\<rparr>),
                                  (1, new_Card 1 1 200 200 0)], nextId = 2\<rparr>,
        slotManager := \<lparr>slots = [Some \<lparr>sid = 0, stype = 0\<rparr>, None, None, None, None, None, None],
                         maxSlots = 7, initialized = True\<rparr>\<rparr>"

section \<open>Rounding to binary64\<close>

lemma pow2_powi: "pow2 e = 2 powi e"
  by (simp add: pow2_def power_int_def power_one_over inverse_eq_divide)

lemma pow2_pos: "0 < pow2 e"
  by (simp add: pow2_powi)

lemma pow2_mono: "e \<le> e' \<Longrightarrow> pow2 e \<le> pow2 e'"
  by (simp add: pow2_powi power_int_increasing)

lemma pow2_strict_mono: "e < e' \<Longrightarrow> pow2 e < pow2 e'"
  by (simp add: pow2_powi power_int_strict_increasing)

lemma exp_up_correct:
  assumes "pow2 e \<le> x" "x < pow2 (e + 1)" "e \<le> 1023"
  shows "n = nat (e - e0) \<Longrightarrow> e0 \<le> e \<Longrightarrow> exp_up x e0 = e"
proof (induction n arbitrary: e0)
  case 0
  then have "e0 = e" by simp
  with assms(2) show ?case by (subst exp_up.simps) simp
next
  case (Suc n)
  then have lt: "e0 < e" by simp
  then have "pow2 (e0 + 1) \<le> pow2 e" by (intro pow2_mono) simp
  with assms(1) have le: "pow2 (e0 + 1) \<le> x" by simp
  from lt assms(3) have "e0 < 1023" by simp
  with le have "exp_up x e0 = exp_up x (e0 + 1)" by (subst exp_up.simps) simp
  also have "\<dots> = e" using Suc.prems lt by (intro Suc.IH) simp_all
  finally show ?case .
qed

lemma exp_down_correct:
  assumes "pow2 e \<le> x \<or> e = - 1022" "x < pow2 (e + 1)" "- 1022 \<le> e"
  shows "n = nat (e0 - e) \<Longrightarrow> e \<le> e0 \<Longrightarrow> exp_down x e0 = e"
proof (induction n arbitrary: e0)
  case 0
  then have "e0 = e" by simp
  with assms(1) show ?case by (subst exp_down.simps) auto
next
  case (Suc n)
  then have lt: "e < e0" by simp
  then have "pow2 (e + 1) \<le> pow2 e0" by (intro pow2_mono) simp
  with assms(2) have le: "x < pow2 e0" by simp
  from lt assms(3) have "- 1022 < e0" by simp
  with le have "exp_down x e0 = exp_down x (e0 - 1)" by (subst exp_down.simps) simp
  also have "\<dots> = e" using Suc.prems lt by (intro Suc.IH) simp_all
  finally show ?case .
qed

lemma binade_correct:
  assumes "pow2 e \<le> x \<or> e = - 1022" "x < pow2 (e + 1)" "- 1022 \<le> e" "e \<le> 1023"
  shows "binade x = e"
proof (cases "1 \<le> x")
  case True
  with assms(2) have "pow2 0 < pow2 (e + 1)" by (simp add: pow2_def)
  then have e0: "0 \<le> e" using pow2_mono[of "e + 1" 0] by (cases "0 \<le> e") auto
  with assms(1) have "pow2 e \<le> x" by auto
  from exp_up_correct[OF this assms(2,4) refl e0] True show ?thesis by (simp add: binade_def)
next
  case False
  have e0: "e \<le> 0"
  proof (rule ccontr)
    assume "\<not> e \<le> 0"
    then have "0 < e" by simp
    with assms(1) have "pow2 e \<le> x" by auto
    moreover have "pow2 0 \<le> pow2 e" using \<open>0 < e\<close> by (intro pow2_mono) simp
    ultimately show False using False by (simp add: pow2_def)
  qed
  from exp_down_correct[OF assms(1,2,3) refl e0] False show ?thesis by (simp add: binade_def)
qed

lemma round64_eval:
  assumes "0 < x" "pow2 e \<le> x \<or> e = - 1022" "x < pow2 (e + 1)" "- 1022 \<le> e" "e \<le> 1023"
    and "round_half_even (x / pow2 (e - 52)) = n" "n < 2 ^ 53 \<or> e < 1023"
  shows "round64 x = Num (of_int n * pow2 (e - 52))"
proof -
  have b: "binade \<bar>x\<bar> = e" using assms(1) binade_correct[OF assms(2-5)] by simp
  from assms(1) have "x \<noteq> 0" "\<bar>x\<bar> = x" "sgn x = 1" by simp_all
  with b assms(6,7) show ?thesis by (auto simp: round64_def Let_def)
qed

lemma round64_neg: "round64 (- x) = js_neg (round64 x)"
  by (cases "x = 0"; cases "0 < x") (auto simp: round64_def Let_def sgn_if)

lemma round_half_even_int: "round_half_even (of_int k) = k"
  unfolding round_half_even_def Let_def by simp

lemma round64_pos_int:
  assumes "0 < i" "i < 2 ^ 53"
  shows "round64 (of_int i) = Num (of_int i)"
proof -
  from assms(1) have "nat i \<ge> 1" by simp
  from ex_power_ivl1[OF order_refl this] obtain n where n: "2 ^ n \<le> nat i" "nat i < 2 ^ (n + 1)"
    by blast
  from n(1) assms(1) have "int (2 ^ n) \<le> i" by (simp add: le_nat_iff)
  then have lo: "(2::int) ^ n \<le> i" by simp
  from n(2) assms(1) have "i < int (2 ^ (n + 1))" by (simp add: nat_less_iff)
  then have hi: "i < (2::int) ^ (n + 1)" by simp
  from lo assms(2) have "(2::int) ^ n < 2 ^ 53" by (rule le_less_trans)
  then have "n < 53" by (intro power_less_imp_less_exp[of "2::int"]) simp_all
  then have n52: "n \<le> 52" by simp
  define e where "e = int n"
  have pe: "pow2 e = 2 ^ n" by (simp add: e_def pow2_def)
  have pe1: "pow2 (e + 1) = 2 ^ (n + 1)" by (simp add: e_def pow2_def nat_add_distrib)
  have "nat (52 - int n) = 52 - n" by simp
  then have pd: "pow2 (e - 52) = 1 / 2 ^ (52 - n)"
    using n52 by (cases "n = 52") (simp_all add: e_def pow2_def)
  have x1: "pow2 e \<le> real_of_int i"
  proof -
    from lo have "real_of_int (2 ^ n) \<le> real_of_int i" by (simp only: of_int_le_iff)
    then show ?thesis unfolding pe by simp
  qed
  have x2: "real_of_int i < pow2 (e + 1)"
  proof -
    from hi have "real_of_int i < real_of_int (2 ^ (n + 1))" by (simp only: of_int_less_iff)
    then show ?thesis unfolding pe1 by simp
  qed
  have q: "real_of_int i / pow2 (e - 52) = of_int (i * 2 ^ (52 - n))"
    unfolding pd by simp
  have r: "round_half_even (real_of_int i / pow2 (e - 52)) = i * 2 ^ (52 - n)"
    unfolding q by (rule round_half_even_int)
  have "round64 (of_int i) = Num (of_int (i * 2 ^ (52 - n)) * pow2 (e - 52))"
  proof (rule round64_eval[OF _ _ x2 _ _ r])
    show "0 < real_of_int i" using assms(1) by simp
    show "pow2 e \<le> real_of_int i \<or> e = - 1022" using x1 by simp
    show "- 1022 \<le> e" "e \<le> 1023" using n52 by (simp_all add: e_def)
    show "i * 2 ^ (52 - n) < 2 ^ 53 \<or> e < 1023" using n52 by (simp add: e_def)
  qed
  also have "of_int (i * 2 ^ (52 - n)) * pow2 (e - 52) = real_of_int i"
    unfolding pd by simp
  finally show ?thesis .
qed

lemma round64_int:
  assumes "\<bar>i\<bar> < 2 ^ 53"
  shows "round64 (of_int i) = Num (of_int i)"
proof -
  consider "i = 0" | "0 < i" | "i < 0" by linarith
  then show ?thesis
  proof cases
    case 1
    then show ?thesis by (simp add: round64_def)
  next
    case 2
    with assms show ?thesis by (intro round64_pos_int) simp_all
  next
    case 3
    with assms have "round64 (of_int (- i)) = Num (of_int (- i))" by (intro round64_pos_int) simp_all
    then have "js_neg (round64 (of_int i)) = Num (- of_int i)"
      using round64_neg[of "of_int i"] by simp
    then show ?thesis by (cases "round64 (of_int i)") simp_all
  qed
qed

lemma js_sub_Num: "js_sub (Num x) (Num y) = round64 (x - y)"
  by (simp add: js_sub_def)

lemma exact_sums_int:
  assumes "\<bar>i\<bar> \<le> 2 ^ 52"
  shows "exact_sums (of_int i)"
proof -
  have a: "round64 (of_int (i + 70)) = Num (of_int (i + 70))"
    using assms by (intro round64_int) simp
  have b: "round64 (of_int (i + 65)) = Num (of_int (i + 65))"
    using assms by (intro round64_int) simp
  have c: "round64 (of_int (i + 5)) = Num (of_int (i + 5))"
    using assms by (intro round64_int) simp
  have d: "real_of_int i + 70 - 5 = real_of_int i + 65" by simp
  from a b c show ?thesis
    unfolding exact_sums_def js_sub_Num d by simp
qed

lemma exact_sums_numeral: "numeral k \<le> (2::int) ^ 52 \<Longrightarrow> exact_sums (numeral k)"
  using exact_sums_int[of "numeral k"] by simp

lemma exact_sums_zero: "exact_sums 0"
  using exact_sums_int[of 0] by simp

lemma checkOverlap_exact:
  assumes "exact_sums (cx a)" "exact_sums (cy a)" "exact_sums (cx b)" "exact_sums (cy b)"
  shows "checkOverlap a b \<longleftrightarrow>
           \<not> (cx a + 65 \<le> cx b \<or> cx a + 5 \<ge> cx b + 70 \<or> cy a + 65 \<le> cy b \<or> cy a + 5 \<ge> cy b + 70)"
  using assms by (simp add: checkOverlap_def exact_sums_def Let_def js_ge_def)














section \<open>Symmetry of the overlap predicate\<close>




section \<open>Elimination score and combo\<close>

lemma addEliminationScore_points:
  "fst (addEliminationScore n sm ls) = n * 10 + (combo sm + 1) * 20"
  by (simp add: addEliminationScore_def Let_def)

lemma addEliminationScore_combo:
  "combo (fst (snd (addEliminationScore n sm ls))) = combo sm + 1"
  by (simp add: addEliminationScore_def Let_def)

lemma addEliminationScore_total:
  "currentScore (fst (snd (addEliminationScore n sm ls))) = currentScore sm + (n * 10 + (combo sm + 1) * 20)"
  by (simp add: addEliminationScore_def Let_def)

text \<open>
  C4. \<open>addEliminationScore\<close> increments the combo before it computes the points and
  returns \<open>cardsEliminated * 10 + combo * 20\<close>. From combo 0, three calls in a row with
  3 cards return 50, 70 and 90, the combo being 1, 2 and 3 and the running total growing by
  210; after \<open>resetCombo\<close> one more such call returns 50.
\<close>

theorem score_combo_sequence:
  "fst (addEliminationScore n sm ls) = n * 10 + (combo sm + 1) * 20 \<and>
   combo (fst (snd (addEliminationScore n sm ls))) = combo sm + 1 \<and>
   (combo sm = 0 \<longrightarrow>
     (case addEliminationScore 3 sm ls of (p1, sm1, ls1) \<Rightarrow>
      case addEliminationScore 3 sm1 ls1 of (p2, sm2, ls2) \<Rightarrow>
      case addEliminationScore 3 sm2 ls2 of (p3, sm3, ls3) \<Rightarrow>
      case addEliminationScore 3 (resetCombo sm3) ls3 of (p4, sm4, ls4) \<Rightarrow>
        p1 = 50 \<and> p2 = 70 \<and> p3 = 90 \<and>
        combo sm1 = 1 \<and> combo sm2 = 2 \<and> combo sm3 = 3 \<and>
        currentScore sm3 = currentScore sm + 210 \<and>
        p4 = 50 \<and> combo sm4 = 1))"
proof (intro conjI impI)
  show "fst (addEliminationScore n sm ls) = n * 10 + (combo sm + 1) * 20"
    by (rule addEliminationScore_points)
  show "combo (fst (snd (addEliminationScore n sm ls))) = combo sm + 1"
    by (rule addEliminationScore_combo)
next
  assume c0: "combo sm = 0"
  obtain p1 sm1 ls1 where a1: "addEliminationScore 3 sm ls = (p1, sm1, ls1)"
    by (cases "addEliminationScore 3 sm ls") auto
  obtain p2 sm2 ls2 where a2: "addEliminationScore 3 sm1 ls1 = (p2, sm2, ls2)"
    by (cases "addEliminationScore 3 sm1 ls1") auto
  obtain p3 sm3 ls3 where a3: "addEliminationScore 3 sm2 ls2 = (p3, sm3, ls3)"
    by (cases "addEliminationScore 3 sm2 ls2") auto
  obtain p4 sm4 ls4 where a4: "addEliminationScore 3 (resetCombo sm3) ls3 = (p4, sm4, ls4)"
    by (cases "addEliminationScore 3 (resetCombo sm3) ls3") auto
  have r1: "p1 = 50" "combo sm1 = 1" "currentScore sm1 = currentScore sm + 50"
    using addEliminationScore_points[of 3 sm ls] addEliminationScore_combo[of 3 sm ls]
      addEliminationScore_total[of 3 sm ls] c0 a1 by simp_all
  have r2: "p2 = 70" "combo sm2 = 2" "currentScore sm2 = currentScore sm + 120"
    using addEliminationScore_points[of 3 sm1 ls1] addEliminationScore_combo[of 3 sm1 ls1]
      addEliminationScore_total[of 3 sm1 ls1] r1 a2 by simp_all
  have r3: "p3 = 90" "combo sm3 = 3" "currentScore sm3 = currentScore sm + 210"
    using addEliminationScore_points[of 3 sm2 ls2] addEliminationScore_combo[of 3 sm2 ls2]
      addEliminationScore_total[of 3 sm2 ls2] r2 a3 by simp_all
  have r4: "p4 = 50" "combo sm4 = 1"
    using addEliminationScore_points[of 3 "resetCombo sm3" ls3]
      addEliminationScore_combo[of 3 "resetCombo sm3" ls3] a4
    by (simp_all add: resetCombo_def)
  show "case addEliminationScore 3 sm ls of (p1, sm1, ls1) \<Rightarrow>
      case addEliminationScore 3 sm1 ls1 of (p2, sm2, ls2) \<Rightarrow>
      case addEliminationScore 3 sm2 ls2 of (p3, sm3, ls3) \<Rightarrow>
      case addEliminationScore 3 (resetCombo sm3) ls3 of (p4, sm4, ls4) \<Rightarrow>
        p1 = 50 \<and> p2 = 70 \<and> p3 = 90 \<and>
        combo sm1 = 1 \<and> combo sm2 = 2 \<and> combo sm3 = 3 \<and>
        currentScore sm3 = currentScore sm + 210 \<and>
        p4 = 50 \<and> combo sm4 = 1"
    using a1 a2 a3 a4 r1 r2 r3 r4 by simp
qed

lemma new_ScoreManager_empty: "new_ScoreManager empty_storage = \<lparr>currentScore = 0, highScore = 0, combo = 0, maxCombo = 0, eliminationCount = 0\<rparr>"
  by (simp add: new_ScoreManager_def loadHighScore_def empty_storage_def)

theorem score_combo_sequence_witness:
  "combo (new_ScoreManager empty_storage) = 0 \<and>
     (case addEliminationScore 3 (new_ScoreManager empty_storage) empty_storage of (p1, sm1, ls1) \<Rightarrow>
      case addEliminationScore 3 sm1 ls1 of (p2, sm2, ls2) \<Rightarrow>
      case addEliminationScore 3 sm2 ls2 of (p3, sm3, ls3) \<Rightarrow>
      case addEliminationScore 3 (resetCombo sm3) ls3 of (p4, sm4, ls4) \<Rightarrow>
        p1 = 50 \<and> p2 = 70 \<and> p3 = 90 \<and>
        combo sm1 = 1 \<and> combo sm2 = 2 \<and> combo sm3 = 3 \<and>
        currentScore sm3 = 210 \<and> p4 = 50 \<and> combo sm4 = 1)"
proof -
  have c: "combo (new_ScoreManager empty_storage) = 0" by (simp add: new_ScoreManager_empty)
  have z: "currentScore (new_ScoreManager empty_storage) = 0" by (simp add: new_ScoreManager_empty)
  from score_combo_sequence[of 3 "new_ScoreManager empty_storage" empty_storage] c z
  show ?thesis by (simp add: split_def)
qed

section \<open>One pass of match evaluation\<close>

lemma compactSlots_fold_aux:
  "n + length cs \<le> length s \<Longrightarrow>
   fold (\<lambda>(index, c) s. s[index := c]) (enumerate n cs) s = take n s @ cs @ drop (n + length cs) s"
proof (induction cs arbitrary: n s)
  case Nil
  then show ?case by simp
next
  case (Cons c cs)
  have "fold (\<lambda>(index, c) s. s[index := c]) (enumerate n (c # cs)) s
      = fold (\<lambda>(index, c) s. s[index := c]) (enumerate (Suc n) cs) (s[n := c])"
    by simp
  also have "\<dots> = take (Suc n) (s[n := c]) @ cs @ drop (Suc n + length cs) (s[n := c])"
    using Cons.prems by (intro Cons.IH) simp
  also have "\<dots> = take n s @ (c # cs) @ drop (n + length (c # cs)) s"
    using Cons.prems by (simp add: take_Suc_conv_app_nth)
  finally show ?case .
qed

lemma compactSlots_eq:
  "compactSlots sl = filter (\<lambda>slot. slot \<noteq> None) sl
       @ replicate (length sl - length (filter (\<lambda>slot. slot \<noteq> None) sl)) None"
proof -
  let ?cs = "filter (\<lambda>slot. slot \<noteq> None) sl"
  have le: "0 + length ?cs \<le> length (replicate (length sl) (None :: cardData option))"
    by simp
  show ?thesis
    unfolding compactSlots_def Let_def
    by (subst compactSlots_fold_aux[OF le]) simp
qed


lemma for_in_three:
  assumes "A \<noteq> B" "A \<noteq> C" "B \<noteq> C"
  shows "for_in [(A, a), (B, b), (C, c)] \<in>
     {[(A, a), (B, b), (C, c)], [(A, a), (C, c), (B, b)], [(C, c), (A, a), (B, b)],
      [(B, b), (A, a), (C, c)], [(B, b), (C, c), (A, a)], [(C, c), (B, b), (A, a)]}"
  using assms unfolding for_in_def by (simp add: insort_key.simps) 

lemma eliminate_skip:
  "length idxs < 3 \<Longrightarrow> eliminate h ((t, idxs) # rest) sl w e = eliminate h rest sl w e"
  by simp

lemma eliminate_hit:
  "eliminate record_event ((t, [i, j, k]) # rest) sl evs e =
     eliminate record_event rest (sl[i := None, j := None, k := None]) (evs @ [(t, [i, j, k])]) True"
  by (simp add: record_event_def)

lemma eliminate_AB:
  assumes "L \<in> {[(A, [0, 1, 3]), (B, [2, 5, 6]), (C, [4])], [(A, [0, 1, 3]), (C, [4]), (B, [2, 5, 6])],
      [(C, [4]), (A, [0, 1, 3]), (B, [2, 5, 6])]}"
  shows "eliminate record_event L [x0, x1, x2, x3, x4, x5, x6] [] False
       = ([None, None, None, None, x4, None, None], [(A, [0, 1, 3]), (B, [2, 5, 6])], True)"
proof -
  from assms consider "L = [(A, [0, 1, 3]), (B, [2, 5, 6]), (C, [4])]"
    | "L = [(A, [0, 1, 3]), (C, [4]), (B, [2, 5, 6])]" | "L = [(C, [4]), (A, [0, 1, 3]), (B, [2, 5, 6])]"
    by blast
  then show ?thesis
    by cases (simp_all add: record_event_def numeral_eq_Suc)
qed

lemma eliminate_BA:
  assumes "L \<in> {[(B, [2, 5, 6]), (A, [0, 1, 3]), (C, [4])],
      [(B, [2, 5, 6]), (C, [4]), (A, [0, 1, 3])], [(C, [4]), (B, [2, 5, 6]), (A, [0, 1, 3])]}"
  shows "eliminate record_event L [x0, x1, x2, x3, x4, x5, x6] [] False
       = ([None, None, None, None, x4, None, None], [(B, [2, 5, 6]), (A, [0, 1, 3])], True)"
proof -
  from assms consider "L = [(B, [2, 5, 6]), (A, [0, 1, 3]), (C, [4])]"
    | "L = [(B, [2, 5, 6]), (C, [4]), (A, [0, 1, 3])]" | "L = [(C, [4]), (B, [2, 5, 6]), (A, [0, 1, 3])]"
    by blast
  then show ?thesis
    by cases (simp_all add: record_event_def numeral_eq_Suc)
qed

lemma slots_seven:
  assumes "map (map_option stype) sl = [Some A, Some A, Some B, Some A, Some C, Some B, Some B]"
  shows "\<exists>d0 d1 d2 d3 d4 d5 d6. sl = [Some d0, Some d1, Some d2, Some d3, Some d4, Some d5, Some d6] \<and>
     stype d0 = A \<and> stype d1 = A \<and> stype d2 = B \<and> stype d3 = A \<and> stype d4 = C \<and>
     stype d5 = B \<and> stype d6 = B"
  using assms by (simp add: map_eq_Cons_conv) blast

lemma countTypes_seven:
  assumes "A \<noteq> B" "A \<noteq> C" "B \<noteq> C"
    and "stype d0 = A" "stype d1 = A" "stype d2 = B" "stype d3 = A" "stype d4 = C"
        "stype d5 = B" "stype d6 = B"
  shows "countTypes 0 [Some d0, Some d1, Some d2, Some d3, Some d4, Some d5, Some d6] []
       = [(A, [0, 1, 3]), (B, [2, 5, 6]), (C, [4])]"
  using assms by (simp add: numeral_eq_Suc)

lemma eliminate_seven:
  assumes "A \<noteq> B" "A \<noteq> C" "B \<noteq> C"
  shows "\<exists>evs. eliminate record_event (for_in [(A, [0, 1, 3]), (B, [2, 5, 6]), (C, [4])])
              [x0, x1, x2, x3, x4, x5, x6] [] False
            = ([None, None, None, None, x4, None, None], evs, True) \<and>
            length evs = 2 \<and> set evs = {(A, [0, 1, 3]), (B, [2, 5, 6])}"
proof -
  let ?L = "for_in [(A, [0, 1, 3::nat]), (B, [2, 5, 6]), (C, [4])]"
  from for_in_three[OF assms, of "[0, 1, 3]" "[2, 5, 6]" "[4]"]
  consider (AB) "?L \<in> {[(A, [0, 1, 3]), (B, [2, 5, 6]), (C, [4])], [(A, [0, 1, 3]), (C, [4]), (B, [2, 5, 6])],
      [(C, [4]), (A, [0, 1, 3]), (B, [2, 5, 6])]}"
    | (BA) "?L \<in> {[(B, [2, 5, 6]), (A, [0, 1, 3]), (C, [4])],
      [(B, [2, 5, 6]), (C, [4]), (A, [0, 1, 3])], [(C, [4]), (B, [2, 5, 6]), (A, [0, 1, 3])]}"
    by blast
  then show ?thesis
  proof cases
    case AB
    from eliminate_AB[OF AB] show ?thesis by (intro exI[of _ "[(A, [0, 1, 3]), (B, [2, 5, 6])]"]) simp
  next
    case BA
    from eliminate_BA[OF BA] show ?thesis
      by (intro exI[of _ "[(B, [2, 5, 6]), (A, [0, 1, 3])]"]) (simp add: insert_commute)
  qed
qed

text \<open>
  C2. When the occupied types of the seven slots are \<open>[A, A, B, A, C, B, B]\<close> in index
  order, with \<open>A\<close>, \<open>B\<close>, \<open>C\<close> pairwise distinct, one pass of \<open>checkForElimination\<close>
  clears the slots 0, 1, 3 (the first three of type \<open>A\<close>) and 2, 5, 6 (the first three of
  type \<open>B\<close>), dispatches exactly two events, one for \<open>A\<close> and one for \<open>B\<close>, and after
  \<open>compactSlots\<close> the only occupied slot is slot 0, which holds the entry of type \<open>C\<close>.
\<close>

theorem triple_match_pass:
  assumes "A \<noteq> B" "A \<noteq> C" "B \<noteq> C"
    and "map (map_option stype) (slots s) = [Some A, Some A, Some B, Some A, Some C, Some B, Some B]"
  shows "\<exists>e evs. slots s ! 4 = Some e \<and> stype e = C \<and>
           eliminate record_event (for_in (countTypes 0 (slots s) [])) (slots s) [] False
             = ([None, None, None, None, Some e, None, None], evs, True) \<and>
           checkForElimination record_event s []
             = (True, s\<lparr>slots := [Some e, None, None, None, None, None, None]\<rparr>, evs) \<and>
           length evs = 2 \<and> set evs = {(A, [0, 1, 3]), (B, [2, 5, 6])}"
proof -
  from slots_seven[OF assms(4)] obtain d0 d1 d2 d3 d4 d5 d6 where
    sl: "slots s = [Some d0, Some d1, Some d2, Some d3, Some d4, Some d5, Some d6]"
    and ty: "stype d0 = A" "stype d1 = A" "stype d2 = B" "stype d3 = A" "stype d4 = C"
            "stype d5 = B" "stype d6 = B"
    by blast
  have tc: "countTypes 0 (slots s) [] = [(A, [0, 1, 3]), (B, [2, 5, 6]), (C, [4])]"
    unfolding sl by (rule countTypes_seven[OF assms(1-3) ty])
  let ?pre = "[None, None, None, None, Some d4, None, None]"
  let ?post = "[Some d4, None, None, None, None, None, None]"
  have cp: "compactSlots ?pre = ?post"
    by (simp add: compactSlots_eq)
  from eliminate_seven[OF assms(1-3), of "Some d0" "Some d1" "Some d2" "Some d3" "Some d4" "Some d5" "Some d6"]
  obtain evs where
    el0: "eliminate record_event (for_in [(A, [0, 1, 3]), (B, [2, 5, 6]), (C, [4])])
              [Some d0, Some d1, Some d2, Some d3, Some d4, Some d5, Some d6] [] False = (?pre, evs, True)"
    and ev: "length evs = 2" "set evs = {(A, [0, 1, 3]), (B, [2, 5, 6])}"
    by (elim exE conjE)
  have el: "eliminate record_event (for_in (countTypes 0 (slots s) [])) (slots s) [] False = (?pre, evs, True)"
    unfolding tc unfolding sl by (rule el0)
  have cf: "checkForElimination record_event s [] = (True, s\<lparr>slots := ?post\<rparr>, evs)"
    unfolding checkForElimination_def Let_def el by (simp add: cp)
  have n4: "slots s ! 4 = Some d4" unfolding sl by simp
  show ?thesis
    apply (rule exI[of _ d4])
    apply (rule exI[of _ evs])
    apply (intro conjI)
         apply (rule n4)
        apply (rule ty(5))
       apply (rule el)
      apply (rule cf)
     apply (rule ev(1))
    apply (rule ev(2))
    done
qed

theorem triple_match_pass_witness:
  "\<exists>evs. checkForElimination record_event
     \<lparr>slots = [Some \<lparr>sid = 10, stype = 0\<rparr>, Some \<lparr>sid = 11, stype = 0\<rparr>, Some \<lparr>sid = 12, stype = 1\<rparr>,
        Some \<lparr>sid = 13, stype = 0\<rparr>, Some \<lparr>sid = 14, stype = 2\<rparr>, Some \<lparr>sid = 15, stype = 1\<rparr>,
        Some \<lparr>sid = 16, stype = 1\<rparr>], maxSlots = 7, initialized = True\<rparr> []
   = (True, \<lparr>slots = [Some \<lparr>sid = 14, stype = 2\<rparr>, None, None, None, None, None, None],
        maxSlots = 7, initialized = True\<rparr>, evs) \<and>
     length evs = 2 \<and> set evs = {(0, [0, 1, 3]), (1, [2, 5, 6])}"
proof -
  let ?s = "\<lparr>slots = [Some \<lparr>sid = 10, stype = 0\<rparr>, Some \<lparr>sid = 11, stype = 0\<rparr>, Some \<lparr>sid = 12, stype = 1\<rparr>,
        Some \<lparr>sid = 13, stype = 0\<rparr>, Some \<lparr>sid = 14, stype = 2\<rparr>, Some \<lparr>sid = 15, stype = 1\<rparr>,
        Some \<lparr>sid = 16, stype = 1\<rparr>], maxSlots = 7, initialized = True\<rparr>"
  have h: "map (map_option stype) (slots ?s) = [Some 0, Some 0, Some 1, Some 0, Some 2, Some 1, Some 1]"
    by simp
  have d: "(0::nat) \<noteq> 1" "(0::nat) \<noteq> 2" "(1::nat) \<noteq> 2" by simp_all
  from triple_match_pass[OF d h] obtain e evs where
    r: "slots ?s ! 4 = Some e"
      "checkForElimination record_event ?s [] = (True, ?s\<lparr>slots := [Some e, None, None, None, None, None, None]\<rparr>, evs)"
      "length evs = 2" "set evs = {(0, [0, 1, 3]), (1, [2, 5, 6])}"
    by (elim exE conjE)
  from r(1) have e: "e = \<lparr>sid = 14, stype = 2\<rparr>" by simp
  show ?thesis
    apply (rule exI[of _ evs])
    using r(2-4) unfolding e by simp
qed

section \<open>Capacity of the slot queue\<close>

lemma findIndex_None: "findIndex P xs = None \<longleftrightarrow> (\<forall>x\<in>set xs. \<not> P x)"
  by (induction xs) auto

lemma findIndex_Some:
  "findIndex P xs = Some i \<Longrightarrow> i < length xs \<and> P (xs ! i) \<and> (\<forall>j<i. \<not> P (xs ! j))"
proof (induction xs arbitrary: i)
  case Nil
  then show ?case by simp
next
  case (Cons x xs)
  show ?case
  proof (cases "P x")
    case True
    with Cons.prems show ?thesis by simp
  next
    case False
    with Cons.prems obtain i' where i': "findIndex P xs = Some i'" "i = Suc i'"
      by auto
    from Cons.IH[OF i'(1)] False i'(2) show ?thesis
      by (auto simp: nth_Cons split: nat.splits)
  qed
qed

lemma length_fold_update: "length (fold (\<lambda>index s. s[index := v]) is sl) = length sl"
  by (induction "is" arbitrary: sl) auto

lemma length_eliminate: "length (fst (eliminate h L sl w e)) = length sl"
  by (induction h L sl w e rule: eliminate.induct) (auto simp: Let_def length_fold_update)

lemma length_compactSlots: "length (compactSlots sl) = length sl"
  by (simp add: compactSlots_eq)

lemma checkForElimination_shape:
  "length (slots (fst (snd (checkForElimination h s w)))) = length (slots s) \<and>
   maxSlots (fst (snd (checkForElimination h s w))) = maxSlots s \<and>
   initialized (fst (snd (checkForElimination h s w))) = initialized s"
proof -
  obtain sl w' e where el: "eliminate h (for_in (countTypes 0 (slots s) [])) (slots s) w False = (sl, w', e)"
    by (cases "eliminate h (for_in (countTypes 0 (slots s) [])) (slots s) w False") auto
  from length_eliminate[of h "for_in (countTypes 0 (slots s) [])" "slots s" w False] el
  have "length sl = length (slots s)" by simp
  then show ?thesis
    by (simp add: checkForElimination_def Let_def el length_compactSlots)
qed

lemma addCard_shape:
  "length (slots (fst (snd (addCard h d s w)))) = length (slots s) \<and>
   maxSlots (fst (snd (addCard h d s w))) = maxSlots s \<and>
   initialized (fst (snd (addCard h d s w))) = initialized s"
proof (cases "findIndex (\<lambda>slot. slot = None) (slots s)")
  case None
  then show ?thesis by (simp add: addCard_def)
next
  case (Some i)
  let ?s1 = "s\<lparr>slots := (slots s)[i := Some d]\<rparr>"
  from checkForElimination_shape[of h ?s1 w] show ?thesis
    by (simp add: addCard_def Some Let_def split_def)
qed

lemma slot_inv_step: "slot_inv s \<Longrightarrow> slot_inv (slot_step op s)"
proof (cases op)
  case Initialize
  assume "slot_inv s"
  then show ?thesis using Initialize by (simp add: slot_inv_def initialize_def)
next
  case (AddCard d)
  assume "slot_inv s"
  then show ?thesis using AddCard addCard_shape[of record_event d s "[]"]
    by (simp add: slot_inv_def)
next
  case CheckForElimination
  assume "slot_inv s"
  then show ?thesis using CheckForElimination checkForElimination_shape[of record_event s "[]"]
    by (simp add: slot_inv_def)
next
  case CompactSlots
  assume "slot_inv s"
  then show ?thesis using CompactSlots by (simp add: slot_inv_def length_compactSlots)
next
  case SlotsClearAll
  assume "slot_inv s"
  then show ?thesis using SlotsClearAll by (simp add: slot_inv_def slots_clearAll_def)
qed

lemma slot_inv_run: "slot_inv s \<Longrightarrow> slot_inv (slot_run ops s)"
  unfolding slot_run_def by (induction ops arbitrary: s) (auto intro: slot_inv_step)

lemma slot_inv_new: "slot_inv new_SlotManager"
  by (simp add: slot_inv_def new_SlotManager_def)

lemma slot_inv_count: "slot_inv s \<Longrightarrow> getCardCount s \<le> 7"
proof -
  assume "slot_inv s"
  then have "length (slots s) \<le> 7" by (simp add: slot_inv_def)
  moreover have "getCardCount s \<le> length (slots s)" by (simp add: getCardCount_def)
  ultimately show ?thesis by simp
qed

lemma addCard_full:
  assumes "\<forall>x\<in>set (slots s). x \<noteq> None"
  shows "addCard h d s w = (False, s, w)"
proof -
  from assms have "findIndex (\<lambda>slot. slot = None) (slots s) = None"
    by (simp add: findIndex_None)
  then show ?thesis by (simp add: addCard_def)
qed

lemma addCard_first_empty:
  assumes "\<not> isFull s"
  shows "\<exists>i<length (slots s). slots s ! i = None \<and> (\<forall>j<i. slots s ! j \<noteq> None) \<and>
           addCard h d s w =
             (case checkForElimination h (s\<lparr>slots := (slots s)[i := Some d]\<rparr>) w of
                (eliminated, s', w') \<Rightarrow> (True, s', w'))"
proof -
  from assms have "findIndex (\<lambda>slot. slot = None) (slots s) \<noteq> None"
    by (auto simp: isFull_def findIndex_None list_all_iff)
  then obtain i where i: "findIndex (\<lambda>slot. slot = None) (slots s) = Some i" by auto
  from findIndex_Some[OF i] have "i < length (slots s)" "slots s ! i = None" "\<forall>j<i. slots s ! j \<noteq> None"
    by auto
  moreover have "addCard h d s w =
             (case checkForElimination h (s\<lparr>slots := (slots s)[i := Some d]\<rparr>) w of
                (eliminated, s', w') \<Rightarrow> (True, s', w'))"
    by (simp add: addCard_def i Let_def)
  ultimately show ?thesis by blast
qed

lemma count_full:
  assumes "length xs = n" "length (filter P xs) = n"
  shows "\<forall>x\<in>set xs. P x"
  using assms by (metis filter_True filter_id_conv length_filter_less less_irrefl_nat)

text \<open>
  What \<open>addCard\<close> and \<open>checkForElimination\<close> return and do to the slots does not
  depend on the listener, so a run with the recorded events reaches the same slot arrays
  as the game does.
\<close>

lemma eliminate_listener:
  "fst (eliminate h L sl w e) = fst (eliminate h' L sl w' e) \<and>
   snd (snd (eliminate h L sl w e)) = snd (snd (eliminate h' L sl w' e))"
proof (induction L arbitrary: sl w w' e)
  case Nil
  then show ?case by simp
next
  case (Cons p L)
  obtain t idxs where p: "p = (t, idxs)" by (cases p)
  show ?case
  proof (cases "length idxs \<ge> 3")
    case True
    from Cons[where sl = "fold (\<lambda>index s. s[index := None]) (take 3 idxs) sl"
        and w = "h t (take 3 idxs) sl w" and w' = "h' t (take 3 idxs) sl w'" and e = True]
    show ?thesis using True by (simp add: p Let_def)
  next
    case False
    from Cons[where sl = sl and w = w and w' = w' and e = e] show ?thesis using False by (simp add: p)
  qed
qed

lemma checkForElimination_listener:
  "fst (checkForElimination h s w) = fst (checkForElimination h' s w') \<and>
   fst (snd (checkForElimination h s w)) = fst (snd (checkForElimination h' s w'))"
  using eliminate_listener[of h "for_in (countTypes 0 (slots s) [])" "slots s" w False h' w']
  by (simp add: checkForElimination_def Let_def split_def)

lemma addCard_listener:
  "fst (addCard h d s w) = fst (addCard h' d s w') \<and>
   fst (snd (addCard h d s w)) = fst (snd (addCard h' d s w'))"
proof (cases "findIndex (\<lambda>slot. slot = None) (slots s)")
  case None
  then show ?thesis by (simp add: addCard_def)
next
  case (Some i)
  from checkForElimination_listener[of h "s\<lparr>slots := (slots s)[i := Some d]\<rparr>" w h' w']
  show ?thesis by (simp add: addCard_def Some Let_def split_def)
qed

text \<open>
  C3. In every state the slot manager reaches from its constructor, at most 7 slots are
  occupied. When all 7 are occupied, \<open>addCard\<close> returns \<open>false\<close> and changes
  nothing. When the queue is not full, \<open>addCard\<close> puts the card into the first empty
  slot in ascending index order, evaluates the matches on that array and returns
  \<open>true\<close>.
\<close>

theorem slot_queue_capacity:
  assumes "s = slot_run ops new_SlotManager"
  shows "getCardCount s \<le> 7 \<and>
         (getCardCount s = 7 \<longrightarrow> addCard h d s w = (False, s, w)) \<and>
         (\<not> isFull s \<longrightarrow>
            (\<exists>i<length (slots s). slots s ! i = None \<and> (\<forall>j<i. slots s ! j \<noteq> None) \<and>
               addCard h d s w =
                 (case checkForElimination h (s\<lparr>slots := (slots s)[i := Some d]\<rparr>) w of
                    (eliminated, s', w') \<Rightarrow> (True, s', w'))))"
proof (intro conjI impI)
  have inv: "slot_inv s" unfolding assms by (rule slot_inv_run[OF slot_inv_new])
  show "getCardCount s \<le> 7" by (rule slot_inv_count[OF inv])
  {
    assume c: "getCardCount s = 7"
    have "getCardCount s \<le> length (slots s)" by (simp add: getCardCount_def)
    with c inv have "length (slots s) = 7" by (simp add: slot_inv_def split: if_splits)
    with c have "\<forall>x\<in>set (slots s). x \<noteq> None"
      unfolding getCardCount_def by (intro count_full[of _ 7]) auto
    then show "addCard h d s w = (False, s, w)" by (rule addCard_full)
  }
  {
    assume "\<not> isFull s"
    then show "\<exists>i<length (slots s). slots s ! i = None \<and> (\<forall>j<i. slots s ! j \<noteq> None) \<and>
               addCard h d s w =
                 (case checkForElimination h (s\<lparr>slots := (slots s)[i := Some d]\<rparr>) w of
                    (eliminated, s', w') \<Rightarrow> (True, s', w'))"
      by (rule addCard_first_empty)
  }
qed

lemma slot_run_seven: "slot_run [Initialize, AddCard \<lparr>sid = 0, stype = 0\<rparr>, AddCard \<lparr>sid = 1, stype = 1\<rparr>,
       AddCard \<lparr>sid = 2, stype = 2\<rparr>, AddCard \<lparr>sid = 3, stype = 3\<rparr>, AddCard \<lparr>sid = 4, stype = 0\<rparr>,
       AddCard \<lparr>sid = 5, stype = 1\<rparr>, AddCard \<lparr>sid = 6, stype = 2\<rparr>] new_SlotManager
   = \<lparr>slots = [Some \<lparr>sid = 0, stype = 0\<rparr>, Some \<lparr>sid = 1, stype = 1\<rparr>, Some \<lparr>sid = 2, stype = 2\<rparr>,
        Some \<lparr>sid = 3, stype = 3\<rparr>, Some \<lparr>sid = 4, stype = 0\<rparr>, Some \<lparr>sid = 5, stype = 1\<rparr>,
        Some \<lparr>sid = 6, stype = 2\<rparr>], maxSlots = 7, initialized = True\<rparr>"
  by (simp add: slot_run_def new_SlotManager_def initialize_def addCard_def checkForElimination_def
      for_in_def numeral_eq_Suc)


lemma slot_run_initialize: "slot_run [Initialize] new_SlotManager
   = \<lparr>slots = [None, None, None, None, None, None, None], maxSlots = 7, initialized = True\<rparr>"
  by (simp add: slot_run_def new_SlotManager_def initialize_def numeral_eq_Suc)

theorem slot_queue_capacity_witness:
  "getCardCount (slot_run [Initialize, AddCard \<lparr>sid = 0, stype = 0\<rparr>, AddCard \<lparr>sid = 1, stype = 1\<rparr>,
       AddCard \<lparr>sid = 2, stype = 2\<rparr>, AddCard \<lparr>sid = 3, stype = 3\<rparr>, AddCard \<lparr>sid = 4, stype = 0\<rparr>,
       AddCard \<lparr>sid = 5, stype = 1\<rparr>, AddCard \<lparr>sid = 6, stype = 2\<rparr>] new_SlotManager) = 7 \<and>
   addCard record_event \<lparr>sid = 7, stype = 3\<rparr>
     (slot_run [Initialize, AddCard \<lparr>sid = 0, stype = 0\<rparr>, AddCard \<lparr>sid = 1, stype = 1\<rparr>,
       AddCard \<lparr>sid = 2, stype = 2\<rparr>, AddCard \<lparr>sid = 3, stype = 3\<rparr>, AddCard \<lparr>sid = 4, stype = 0\<rparr>,
       AddCard \<lparr>sid = 5, stype = 1\<rparr>, AddCard \<lparr>sid = 6, stype = 2\<rparr>] new_SlotManager) []
   = (False, \<lparr>slots = [Some \<lparr>sid = 0, stype = 0\<rparr>, Some \<lparr>sid = 1, stype = 1\<rparr>, Some \<lparr>sid = 2, stype = 2\<rparr>,
        Some \<lparr>sid = 3, stype = 3\<rparr>, Some \<lparr>sid = 4, stype = 0\<rparr>, Some \<lparr>sid = 5, stype = 1\<rparr>,
        Some \<lparr>sid = 6, stype = 2\<rparr>], maxSlots = 7, initialized = True\<rparr>, []) \<and>
   \<not> isFull (slot_run [Initialize] new_SlotManager) \<and>
   addCard record_event \<lparr>sid = 7, stype = 3\<rparr> (slot_run [Initialize] new_SlotManager) []
      = (True, \<lparr>slots = [Some \<lparr>sid = 7, stype = 3\<rparr>, None, None, None, None, None, None],
                 maxSlots = 7, initialized = True\<rparr>, [])"
proof -
  let ?ops = "[Initialize, AddCard \<lparr>sid = 0, stype = 0\<rparr>, AddCard \<lparr>sid = 1, stype = 1\<rparr>,
       AddCard \<lparr>sid = 2, stype = 2\<rparr>, AddCard \<lparr>sid = 3, stype = 3\<rparr>, AddCard \<lparr>sid = 4, stype = 0\<rparr>,
       AddCard \<lparr>sid = 5, stype = 1\<rparr>, AddCard \<lparr>sid = 6, stype = 2\<rparr>]"
  let ?s1 = "\<lparr>slots = [None, None, None, None, None, None, None], maxSlots = 7, initialized = True\<rparr>"
  let ?d = "\<lparr>sid = 7, stype = 3\<rparr>"
  have c7: "getCardCount (slot_run ?ops new_SlotManager) = 7"
    unfolding slot_run_seven by (simp add: getCardCount_def)
  have nf: "\<not> isFull (slot_run [Initialize] new_SlotManager)"
    unfolding slot_run_initialize by (simp add: isFull_def)
  from slot_queue_capacity[OF refl, of ?ops record_event ?d "[]"] c7
  have a: "addCard record_event ?d (slot_run ?ops new_SlotManager) []
      = (False, slot_run ?ops new_SlotManager, [])"
    by blast
  from slot_queue_capacity[OF refl, of "[Initialize]" record_event ?d "[]"] nf
  obtain i where i: "\<forall>j<i. slots ?s1 ! j \<noteq> None"
    and ad: "addCard record_event ?d ?s1 []
      = (case checkForElimination record_event (?s1\<lparr>slots := (slots ?s1)[i := Some ?d]\<rparr>) [] of
           (eliminated, s', w') \<Rightarrow> (True, s', w'))"
    unfolding slot_run_initialize by blast
  have "i = 0"
  proof (rule ccontr)
    assume "i \<noteq> 0"
    then have "0 < i" by simp
    with i have "slots ?s1 ! 0 \<noteq> None" by blast
    then show False by simp
  qed
  with ad have b: "addCard record_event ?d ?s1 []
      = (True, \<lparr>slots = [Some ?d, None, None, None, None, None, None], maxSlots = 7, initialized = True\<rparr>, [])"
    by (simp add: checkForElimination_def for_in_def)
  from c7 a nf b show ?thesis unfolding slot_run_seven slot_run_initialize by simp
qed

section \<open>Card ids\<close>

lemma nextId_createCard: "nextId (snd (createCard t x y l cm)) = Suc (nextId cm)"
  by (simp add: createCard_def Let_def)

lemma cid_createCard: "cid (fst (createCard t x y l cm)) = nextId cm"
  by (simp add: createCard_def Let_def new_Card_def)

lemma nextId_removeCard: "nextId (removeCard i cm) = nextId cm"
  by (simp add: removeCard_def split: option.splits)

lemma card_run_no_clear:
  "ClearAll \<notin> set ops \<Longrightarrow> \<exists>n. snd (card_run ops cm) = [nextId cm ..< nextId cm + n]"
proof (induction ops cm rule: card_run.induct)
  case (1 cm)
  show ?case by (rule exI[of _ 0]) simp
next
  case (2 t x y l ops cm)
  let ?cm1 = "snd (createCard t x y l cm)"
  have "\<exists>n. snd (card_run ops ?cm1) = [nextId ?cm1 ..< nextId ?cm1 + n]"
    using "2.IH"[OF refl, of "fst (createCard t x y l cm)" ?cm1] "2.prems" by simp
  then obtain n where ih: "snd (card_run ops ?cm1) = [nextId ?cm1 ..< nextId ?cm1 + n]" ..
  have "snd (card_run (CreateCard t x y l # ops) cm) = nextId cm # snd (card_run ops ?cm1)"
    by (simp add: split_def cid_createCard Let_def)
  also have "\<dots> = nextId cm # [Suc (nextId cm) ..< Suc (nextId cm) + n]"
    unfolding ih nextId_createCard ..
  also have "\<dots> = [nextId cm ..< nextId cm + Suc n]"
    by (simp add: upt_conv_Cons)
  finally show ?case by blast
next
  case (3 i ops cm)
  then show ?case by (simp add: nextId_removeCard)
next
  case (4 ops cm)
  then show ?case by simp
qed

text \<open>
  C10 as stated fails: \<open>clearAll\<close> sets \<open>nextId\<close> back to 0, so the card created
  after it gets the id 0 again.
\<close>

theorem ids_reused_after_clearAll:
  "snd (card_run [CreateCard 0 0 0 0, ClearAll, CreateCard 0 0 0 0] new_CardManager) = [0, 0] \<and>
   \<not> distinct (snd (card_run [CreateCard 0 0 0 0, ClearAll, CreateCard 0 0 0 0] new_CardManager))"
  by (simp add: new_CardManager_def createCard_def clearAll_def new_Card_def Let_def)

text \<open>
  C10, amended. In a sequence of \<open>createCard\<close> and \<open>removeCard\<close> calls with no
  \<open>clearAll\<close> among them, from any state of the card manager, the ids given to the
  created cards are strictly increasing from \<open>nextId\<close> on, so no id is given twice.
\<close>

theorem ids_increase_without_clearAll:
  assumes "ClearAll \<notin> set ops"
  shows "sorted_wrt (<) (snd (card_run ops cm)) \<and> distinct (snd (card_run ops cm)) \<and>
         (\<forall>i\<in>set (snd (card_run ops cm)). nextId cm \<le> i)"
proof -
  from card_run_no_clear[OF assms] obtain n where
    "snd (card_run ops cm) = [nextId cm ..< nextId cm + n]" by blast
  then show ?thesis by simp
qed

theorem ids_increase_without_clearAll_witness:
  "ClearAll \<notin> set [CreateCard 0 0 0 0, RemoveCard 0, CreateCard 1 5 5 1] \<and>
   snd (card_run [CreateCard 0 0 0 0, RemoveCard 0, CreateCard 1 5 5 1] new_CardManager) = [0, 1] \<and>
   sorted_wrt (<) (snd (card_run [CreateCard 0 0 0 0, RemoveCard 0, CreateCard 1 5 5 1] new_CardManager)) \<and>
   distinct (snd (card_run [CreateCard 0 0 0 0, RemoveCard 0, CreateCard 1 5 5 1] new_CardManager))"
proof -
  have h: "ClearAll \<notin> set [CreateCard 0 0 0 0, RemoveCard 0, CreateCard 1 5 5 1]" by simp
  have v: "snd (card_run [CreateCard 0 0 0 0, RemoveCard 0, CreateCard 1 5 5 1] new_CardManager) = [0, 1]"
    by (simp add: new_CardManager_def createCard_def removeCard_def new_Card_def Let_def)
  from ids_increase_without_clearAll[OF h, of new_CardManager] h v show ?thesis by blast
qed

section \<open>Recomputing which cards are covered\<close>

lemma isCovered_iff:
  "isCovered c xs \<longleftrightarrow> (\<exists>other\<in>set xs. layer c < layer other \<and> \<not> inSlot other \<and> checkOverlap c other)"
  by (induction xs) auto

lemma map_fst_map_entry: "map fst (AList.map_entry k f m) = map fst m"
  by (induction m) auto

lemma map_entry_distinct:
  "distinct (map fst m) \<Longrightarrow>
   AList.map_entry k0 f m = map (\<lambda>(k, v). (k, if k = k0 then f v else v)) m"
proof (induction m)
  case Nil
  then show ?case by simp
next
  case (Cons p m)
  obtain k v where p: "p = (k, v)" by (cases p)
  show ?case
  proof (cases "k = k0")
    case True
    with Cons.prems p have "k0 \<notin> fst ` set m" by simp
    then have "map (\<lambda>(k, v). (k, if k = k0 then f v else v)) m = m"
      by (induction m) auto
    with True p show ?thesis by simp
  next
    case False
    with Cons p show ?thesis by simp
  qed
qed

lemma fold_map_entry:
  assumes "distinct (map fst ps)" "distinct (map fst m)"
  shows "fold (\<lambda>(k, c) m. AList.map_entry k (g c) m) ps m
       = map (\<lambda>(k, v). (k, case map_of ps k of None \<Rightarrow> v | Some c \<Rightarrow> g c v)) m"
  using assms
proof (induction ps arbitrary: m)
  case Nil
  then show ?case by simp
next
  case (Cons p ps)
  obtain k0 c0 where p: "p = (k0, c0)" by (cases p)
  from Cons.prems p have d: "distinct (map fst ps)" and nk: "map_of ps k0 = None"
    by (auto simp: map_of_eq_None_iff)
  have dm: "distinct (map fst (AList.map_entry k0 (g c0) m))"
    using Cons.prems(2) by (simp add: map_fst_map_entry)
  have "fold (\<lambda>(k, c) m. AList.map_entry k (g c) m) (p # ps) m
      = fold (\<lambda>(k, c) m. AList.map_entry k (g c) m) ps (AList.map_entry k0 (g c0) m)"
    by (simp add: p)
  also have "\<dots> = map (\<lambda>(k, v). (k, case map_of ps k of None \<Rightarrow> v | Some c \<Rightarrow> g c v))
                      (AList.map_entry k0 (g c0) m)"
    by (rule Cons.IH[OF d dm])
  also have "\<dots> = map (\<lambda>(k, v). (k, case map_of (p # ps) k of None \<Rightarrow> v | Some c \<Rightarrow> g c v)) m"
    unfolding map_entry_distinct[OF Cons.prems(2)] using nk by (auto simp: p)
  finally show ?case .
qed


lemma distinct_fst_sort_key:
  "distinct (map fst xs) \<Longrightarrow> distinct (map fst (sort_key f xs))"
  by (simp add: distinct_map)

lemma updateCardStates_cards:
  assumes "distinct (map fst (cards cm))"
  shows "cards (updateCardStates cm) =
     map (\<lambda>(k, v). (k, if inSlot v then v
                        else (if isCovered v (map snd (sort_key (\<lambda>(k, c). layer c)
                                   (filter (\<lambda>(k, c). \<not> inSlot c) (cards cm))))
                             then disable else enable) v))
         (cards cm)"
proof -
  let ?arr = "sort_key (\<lambda>(k, c). layer c) (filter (\<lambda>(k, c). \<not> inSlot c) (cards cm))"
  let ?g = "\<lambda>c. if isCovered c (map snd ?arr) then disable else enable"
  have da: "distinct (map fst ?arr)"
    using assms by (intro distinct_fst_sort_key) (simp add: distinct_map_filter)
  have step: "(\<lambda>(k, c) m. if isCovered c (map snd ?arr) then AList.map_entry k disable m
                          else AList.map_entry k enable m)
            = (\<lambda>(k, c) m. AList.map_entry k (?g c) m)"
    by (auto simp: fun_eq_iff)
  have "cards (updateCardStates cm) = fold (\<lambda>(k, c) m. AList.map_entry k (?g c) m) ?arr (cards cm)"
    unfolding updateCardStates_def Let_def step by simp
  also have "\<dots> = map (\<lambda>(k, v). (k, case map_of ?arr k of None \<Rightarrow> v | Some c \<Rightarrow> ?g c v)) (cards cm)"
    by (rule fold_map_entry[OF da assms])
  also have "\<dots> = map (\<lambda>(k, v). (k, if inSlot v then v else ?g v v)) (cards cm)"
  proof (rule map_cong[OF refl])
    fix p assume pin: "p \<in> set (cards cm)"
    obtain k v where p: "p = (k, v)" by (cases p)
    show "(case p of (k, v) \<Rightarrow> (k, case map_of ?arr k of None \<Rightarrow> v | Some c \<Rightarrow> ?g c v))
        = (case p of (k, v) \<Rightarrow> (k, if inSlot v then v else ?g v v))"
    proof (cases "inSlot v")
      case True
      have "k \<notin> fst ` set ?arr"
      proof
        assume "k \<in> fst ` set ?arr"
        then obtain v' where v': "(k, v') \<in> set (cards cm)" "\<not> inSlot v'" by auto
        from assms v'(1) pin p have "v' = v" by (meson eq_key_imp_eq_value)
        with v'(2) True show False by simp
      qed
      then have "map_of ?arr k = None" by (simp add: map_of_eq_None_iff)
      with True p show ?thesis by simp
    next
      case False
      with pin p have "(k, v) \<in> set ?arr" by simp
      with da have "map_of ?arr k = Some v" by (simp only: map_of_eq_Some_iff)
      with False p show ?thesis by simp
    qed
  qed
  finally show ?thesis .
qed


lemma distinct_createCard:
  "distinct (map fst (cards cm)) \<Longrightarrow> distinct (map fst (cards (snd (createCard t x y l cm))))"
  by (simp add: createCard_def Let_def distinct_update)

lemma distinct_removeCard:
  "distinct (map fst (cards cm)) \<Longrightarrow> distinct (map fst (cards (removeCard i cm)))"
  by (simp add: removeCard_def distinct_delete split: option.splits)

lemma card_run_distinct:
  "distinct (map fst (cards cm)) \<Longrightarrow> distinct (map fst (cards (fst (card_run ops cm))))"
proof (induction ops cm rule: card_run.induct)
  case (1 cm)
  then show ?case by simp
next
  case (2 t x y l ops cm)
  from "2.IH"[OF refl, of "fst (createCard t x y l cm)" "snd (createCard t x y l cm)"]
    distinct_createCard[OF "2.prems"]
  show ?case by (simp add: split_def Let_def)
next
  case (3 i ops cm)
  then show ?case by (simp add: distinct_removeCard)
next
  case (4 ops cm)
  then show ?case by (simp add: clearAll_def)
qed

lemma distinct_updateCardStates:
  "distinct (map fst (cards cm)) \<Longrightarrow> distinct (map fst (cards (updateCardStates cm)))"
  by (simp add: updateCardStates_cards split_def comp_def)

lemma set_arr:
  "set (map snd (sort_key f (filter (\<lambda>(k, c). \<not> inSlot c) m))) = {c. \<exists>k. (k, c) \<in> set m \<and> \<not> inSlot c}"
  by force

text \<open>
  C1. The keys of a \<open>Map\<close> are distinct. After \<open>updateCardStates\<close> the map holds the
  same keys, and every card of it that is not in a slot is disabled if and only if the map
  holds another card that is not in a slot, has a strictly greater layer and overlaps it
  (\<open>checkOverlap\<close>); hence every other non-slotted card is enabled.
\<close>

theorem updateCardStates_covered:
  assumes "distinct (map fst (cards cm))"
  shows "map fst (cards (updateCardStates cm)) = map fst (cards cm) \<and>
         (\<forall>(k, c) \<in> set (cards (updateCardStates cm)). \<not> inSlot c \<longrightarrow>
            (isDisabled c \<longleftrightarrow>
               (\<exists>(k', c') \<in> set (cards (updateCardStates cm)).
                   k' \<noteq> k \<and> \<not> inSlot c' \<and> layer c < layer c' \<and> checkOverlap c c')))"
proof (intro conjI)
  define A where "A = map snd (sort_key (\<lambda>(k, c). layer c) (filter (\<lambda>(k, c). \<not> inSlot c) (cards cm)))"
  define upd where "upd = (\<lambda>v. if inSlot v then v else (if isCovered v A then disable else enable) v)"
  have eq: "cards (updateCardStates cm) = map (\<lambda>(k, v). (k, upd v)) (cards cm)"
    unfolding upd_def A_def by (rule updateCardStates_cards[OF assms])
  have setA: "set A = {c. \<exists>k. (k, c) \<in> set (cards cm) \<and> \<not> inSlot c}"
    unfolding A_def by (rule set_arr)
  show "map fst (cards (updateCardStates cm)) = map fst (cards cm)"
    unfolding eq by (simp add: split_def comp_def)
  have keep: "inSlot (upd v) = inSlot v" "layer (upd v) = layer v"
      "checkOverlap (upd v) (upd v') = checkOverlap v v'" for v v'
    by (simp_all add: upd_def disable_def enable_def checkOverlap_def)
  have dis: "isDisabled (upd v) = isCovered v A" if "\<not> inSlot v" for v
    using that by (simp add: upd_def disable_def enable_def)
  have mem: "(k, c) \<in> set (cards (updateCardStates cm)) \<longleftrightarrow> (\<exists>v. (k, v) \<in> set (cards cm) \<and> c = upd v)"
    for k c unfolding eq by auto
  show "\<forall>(k, c) \<in> set (cards (updateCardStates cm)). \<not> inSlot c \<longrightarrow>
            (isDisabled c \<longleftrightarrow>
               (\<exists>(k', c') \<in> set (cards (updateCardStates cm)).
                   k' \<noteq> k \<and> \<not> inSlot c' \<and> layer c < layer c' \<and> checkOverlap c c'))"
  proof (intro ballI, clarify)
    fix k c assume kc: "(k, c) \<in> set (cards (updateCardStates cm))" and ns: "\<not> inSlot c"
    from kc obtain v where v: "(k, v) \<in> set (cards cm)" "c = upd v"
      unfolding mem by blast
    from ns v(2) keep(1)[of v] have nsv: "\<not> inSlot v" by simp
    have "isDisabled c \<longleftrightarrow> isCovered v A" unfolding v(2) by (rule dis[OF nsv])
    also have "\<dots> \<longleftrightarrow> (\<exists>other\<in>set A. layer v < layer other \<and> \<not> inSlot other \<and> checkOverlap v other)"
      by (rule isCovered_iff)
    also have "\<dots> \<longleftrightarrow> (\<exists>k' v'. (k', v') \<in> set (cards cm) \<and> \<not> inSlot v' \<and> layer v < layer v' \<and> checkOverlap v v')"
      unfolding setA by blast
    also have "\<dots> \<longleftrightarrow> (\<exists>(k', c') \<in> set (cards (updateCardStates cm)).
                   k' \<noteq> k \<and> \<not> inSlot c' \<and> layer c < layer c' \<and> checkOverlap c c')"
    proof
      assume "\<exists>k' v'. (k', v') \<in> set (cards cm) \<and> \<not> inSlot v' \<and> layer v < layer v' \<and> checkOverlap v v'"
      then obtain k' v' where h: "(k', v') \<in> set (cards cm)" "\<not> inSlot v'" "layer v < layer v'"
        "checkOverlap v v'" by blast
      have "k' \<noteq> k"
      proof
        assume "k' = k"
        with assms h(1) v(1) have "v' = v" by (meson eq_key_imp_eq_value)
        with h(3) show False by simp
      qed
      moreover have "(k', upd v') \<in> set (cards (updateCardStates cm))"
        unfolding mem using h(1) by blast
      moreover have "\<not> inSlot (upd v')" "layer c < layer (upd v')" "checkOverlap c (upd v')"
        unfolding v(2) keep using h(2-4) by simp_all
      ultimately show "\<exists>(k', c') \<in> set (cards (updateCardStates cm)).
                   k' \<noteq> k \<and> \<not> inSlot c' \<and> layer c < layer c' \<and> checkOverlap c c'"
        by blast
    next
      assume "\<exists>(k', c') \<in> set (cards (updateCardStates cm)).
                   k' \<noteq> k \<and> \<not> inSlot c' \<and> layer c < layer c' \<and> checkOverlap c c'"
      then obtain k' c' where h: "(k', c') \<in> set (cards (updateCardStates cm))" "\<not> inSlot c'"
        "layer c < layer c'" "checkOverlap c c'" by blast
      from h(1) obtain v' where v': "(k', v') \<in> set (cards cm)" "c' = upd v'"
        unfolding mem by blast
      from h(2-4) have "\<not> inSlot v' \<and> layer v < layer v' \<and> checkOverlap v v'"
        unfolding v(2) v'(2) keep by simp
      with v'(1) show "\<exists>k' v'. (k', v') \<in> set (cards cm) \<and> \<not> inSlot v' \<and> layer v < layer v' \<and> checkOverlap v v'"
        by blast
    qed
    finally show "isDisabled c \<longleftrightarrow> (\<exists>(k', c') \<in> set (cards (updateCardStates cm)).
                   k' \<noteq> k \<and> \<not> inSlot c' \<and> layer c < layer c' \<and> checkOverlap c c')" .
  qed
qed


lemma updateCardStates_example:
  "cards (updateCardStates
     \<lparr>cards = [(0, new_Card 0 0 0 0 0), (1, new_Card 1 1 30 30 1),
               (2, (new_Card 2 0 10 10 2)\<lparr>inSlot := True\<rparr>)], nextId = 3\<rparr>)
   = [(0, (new_Card 0 0 0 0 0)\<lparr>isDisabled := True\<rparr>), (1, new_Card 1 1 30 30 1),
      (2, (new_Card 2 0 10 10 2)\<lparr>inSlot := True\<rparr>)]"
  by (simp add: updateCardStates_def new_Card_def checkOverlap_exact exact_sums_zero
      exact_sums_numeral disable_def enable_def)

theorem updateCardStates_covered_witness:
  "distinct (map fst (cards \<lparr>cards = [(0, new_Card 0 0 0 0 0), (1, new_Card 1 1 30 30 1),
               (2, (new_Card 2 0 10 10 2)\<lparr>inSlot := True\<rparr>)], nextId = 3\<rparr>)) \<and>
   map fst (cards (updateCardStates
     \<lparr>cards = [(0, new_Card 0 0 0 0 0), (1, new_Card 1 1 30 30 1),
               (2, (new_Card 2 0 10 10 2)\<lparr>inSlot := True\<rparr>)], nextId = 3\<rparr>)) = [0, 1, 2] \<and>
   isDisabled (snd (cards (updateCardStates
     \<lparr>cards = [(0, new_Card 0 0 0 0 0), (1, new_Card 1 1 30 30 1),
               (2, (new_Card 2 0 10 10 2)\<lparr>inSlot := True\<rparr>)], nextId = 3\<rparr>) ! 0)) \<and>
   (\<exists>(k', c') \<in> set (cards (updateCardStates
     \<lparr>cards = [(0, new_Card 0 0 0 0 0), (1, new_Card 1 1 30 30 1),
               (2, (new_Card 2 0 10 10 2)\<lparr>inSlot := True\<rparr>)], nextId = 3\<rparr>)).
       k' \<noteq> 0 \<and> \<not> inSlot c' \<and> 0 < layer c' \<and>
       checkOverlap ((new_Card 0 0 0 0 0)\<lparr>isDisabled := True\<rparr>) c') \<and>
   \<not> isDisabled (snd (cards (updateCardStates
     \<lparr>cards = [(0, new_Card 0 0 0 0 0), (1, new_Card 1 1 30 30 1),
               (2, (new_Card 2 0 10 10 2)\<lparr>inSlot := True\<rparr>)], nextId = 3\<rparr>) ! 1))"
proof -
  let ?cm = "\<lparr>cards = [(0, new_Card 0 0 0 0 0), (1, new_Card 1 1 30 30 1),
               (2, (new_Card 2 0 10 10 2)\<lparr>inSlot := True\<rparr>)], nextId = 3\<rparr>"
  let ?c0 = "(new_Card 0 0 0 0 0)\<lparr>isDisabled := True\<rparr>"
  have d: "distinct (map fst (cards ?cm))" by simp
  note t = updateCardStates_covered[OF d]
  from t have keys: "map fst (cards (updateCardStates ?cm)) = [0, 1, 2]" by simp
  have in0: "(0, ?c0) \<in> set (cards (updateCardStates ?cm))"
    unfolding updateCardStates_example by simp
  have p0: "\<not> inSlot ?c0" "isDisabled ?c0" "layer ?c0 = 0" by (simp_all add: new_Card_def)
  from t in0 p0 have ex: "\<exists>(k', c') \<in> set (cards (updateCardStates ?cm)).
       k' \<noteq> 0 \<and> \<not> inSlot c' \<and> 0 < layer c' \<and> checkOverlap ?c0 c'"
    by fastforce
  have v: "isDisabled (snd (cards (updateCardStates ?cm) ! 0))"
      "\<not> isDisabled (snd (cards (updateCardStates ?cm) ! 1))"
    unfolding updateCardStates_example by (simp_all add: new_Card_def)
  from d keys v ex show ?thesis by blast
qed

section \<open>The type list of a level\<close>

lemma ceil_div_ceiling: "0 < b \<Longrightarrow> ceil_div a b = \<lceil>real_of_int a / real_of_int b\<rceil>"
  by (simp add: ceil_div_def ceiling_divide_eq_div)

lemma length_groupLoop:
  "length (groupLoop grp n t acc) = length acc + 3 * nat (n - grp)"
proof (induction grp n t acc rule: groupLoop.induct)
  case (1 grp n t acc)
  show ?case
  proof (cases "grp < n")
    case True
    then have "nat (n - grp) = Suc (nat (n - (grp + 1)))" by simp
    with 1 True show ?thesis by (subst groupLoop.simps) simp
  next
    case False
    then show ?thesis by (subst groupLoop.simps) simp
  qed
qed

lemma length_typeLoop:
  "length (typeLoop ty config acc) = length acc + 3 * nat (cardsPerType config) * nat (cardTypes config - ty)"
proof (induction ty config acc rule: typeLoop.induct)
  case (1 ty config acc)
  show ?case
  proof (cases "ty < cardTypes config")
    case True
    then have n: "nat (cardTypes config - ty) = Suc (nat (cardTypes config - (ty + 1)))" by simp
    from 1[OF True] True show ?thesis
      by (subst typeLoop.simps) (simp add: length_groupLoop n)
  next
    case False
    then show ?thesis by (subst typeLoop.simps) simp
  qed
qed

lemma length_buildCardTypes:
  "length (buildCardTypes config) = 3 * (nat (cardsPerType config) * nat (cardTypes config))"
  by (simp add: buildCardTypes_def length_typeLoop)

lemma pop3: "pop (pop (pop xs)) = take (length xs - 3) xs"
  by (simp add: pop_def butlast_conv_take numeral_3_eq_3)

lemma popLoop_take:
  "popLoop i n xs = take (length xs - 3 * nat (n - i)) xs"
proof (induction i n xs rule: popLoop.induct)
  case (1 i n xs)
  show ?case
  proof (cases "i < n")
    case True
    then have n: "nat (n - i) = Suc (nat (n - (i + 1)))" by simp
    have "popLoop i n xs = popLoop (i + 1) n (pop (pop (pop xs)))"
      using True by (subst popLoop.simps) simp
    also have "\<dots> = take (length (pop (pop (pop xs))) - 3 * nat (n - (i + 1))) (pop (pop (pop xs)))"
      by (rule 1[OF True])
    also have "\<dots> = take (length xs - 3 * nat (n - i)) xs"
      unfolding pop3 n by (simp add: min_def)
    finally show ?thesis .
  next
    case False
    then show ?thesis by (subst popLoop.simps) simp
  qed
qed

lemma trimCardTypes_take:
  "trimCardTypes config xs =
     take (length xs - 3 * nat (if int (length xs) > maxCards config
                                then ceil_div (int (length xs) - maxCards config) 3 else 0)) xs"
  by (simp add: trimCardTypes_def Let_def popLoop_take)


lemma ceil_div_3_bounds: "a \<le> 3 * ceil_div a 3 \<and> 3 * ceil_div a 3 \<le> a + 2"
  unfolding ceil_div_def by presburger

lemma maxCards_levelConfigOf: "1 \<le> level \<Longrightarrow> 0 \<le> maxCards (levelConfigOf level)"
  by (simp add: levelConfigOf_def)

lemma generateLevels_maxCards:
  "config \<in> set (generateLevels n) \<Longrightarrow> 0 \<le> maxCards config"
  by (auto simp: generateLevels_def levelConfigOf_def)

text \<open>
  C5. For every level configuration the type list built by \<open>generateLevelLayout\<close> has
  a length that is a multiple of 3, before and after the trimming for \<open>maxCards\<close>; the
  trimming removes a multiple of 3 entries from the end (the result is a prefix of the
  built list); and, \<open>maxCards\<close> being a count (not negative, as in every configuration
  of \<open>generateLevels\<close>), the trimmed length is at most \<open>maxCards\<close>.
\<close>

theorem type_list_multiple_of_three:
  "3 dvd length (buildCardTypes config) \<and>
   3 dvd length (trimCardTypes config (buildCardTypes config)) \<and>
   (0 \<le> maxCards config \<longrightarrow>
      int (length (trimCardTypes config (buildCardTypes config))) \<le> maxCards config) \<and>
   (\<exists>k. trimCardTypes config (buildCardTypes config)
          = take (length (buildCardTypes config) - 3 * k) (buildCardTypes config))"
proof -
  define xs where "xs = buildCardTypes config"
  define k where "k = nat (if int (length xs) > maxCards config
                            then ceil_div (int (length xs) - maxCards config) 3 else 0)"
  have d3: "3 dvd length xs"
    unfolding xs_def length_buildCardTypes by simp
  have tr: "trimCardTypes config xs = take (length xs - 3 * k) xs"
    unfolding k_def by (rule trimCardTypes_take)
  have len: "length (trimCardTypes config xs) = length xs - 3 * k"
    unfolding tr by simp
  have d3': "3 dvd length (trimCardTypes config xs)"
    unfolding len using d3 by (simp add: dvd_diff_nat)
  have le: "int (length (trimCardTypes config xs)) \<le> maxCards config" if m: "0 \<le> maxCards config"
  proof (cases "int (length xs) > maxCards config")
    case True
    let ?r = "int (length xs) - maxCards config"
    from True have k: "int k = ceil_div ?r 3"
      using ceil_div_3_bounds[of ?r] unfolding k_def by simp
    from ceil_div_3_bounds[of ?r] k have "?r \<le> 3 * int k" by simp
    then show ?thesis unfolding len using m by linarith
  next
    case False
    then have "k = 0" unfolding k_def by simp
    with False show ?thesis unfolding len by simp
  qed
  from d3 d3' le tr show ?thesis unfolding xs_def by blast
qed

theorem type_list_multiple_of_three_witness:
  "0 \<le> maxCards (levelConfigOf 10) \<and>
   length (buildCardTypes (levelConfigOf 10)) = 126 \<and>
   3 dvd length (trimCardTypes (levelConfigOf 10) (buildCardTypes (levelConfigOf 10))) \<and>
   int (length (trimCardTypes (levelConfigOf 10) (buildCardTypes (levelConfigOf 10)))) \<le> 50 \<and>
   length (trimCardTypes (levelConfigOf 10) (buildCardTypes (levelConfigOf 10))) = 48"
proof -
  have m: "maxCards (levelConfigOf 10) = 50" by (simp add: levelConfigOf_def)
  have b: "length (buildCardTypes (levelConfigOf 10)) = 126"
    by (simp add: length_buildCardTypes levelConfigOf_def)
  have t: "length (trimCardTypes (levelConfigOf 10) (buildCardTypes (levelConfigOf 10))) = 48"
    by (simp add: trimCardTypes_take b m ceil_div_def)
  from type_list_multiple_of_three[of "levelConfigOf 10"] m b t show ?thesis by simp
qed

section \<open>The positions of the cards of a level\<close>

lemma cardLoop_unbound:
  assumes "g ''effectiveWidth'' = None" "i < cardsInLayer"
  shows "cardLoop g rnd a layerNo layerCols layerRows cardsInLayer i positions k
       = Inl (ReferenceError ''effectiveWidth'')"
  using assms by (subst cardLoop.simps) (simp add: read_global_def Let_def)

lemma ceil_div_pos: "0 < a \<Longrightarrow> 0 < b \<Longrightarrow> 0 < ceil_div a b"
proof -
  assume "0 < a" "0 < b"
  then have "(- a) div b < 0" by (intro div_neg_pos_less0) simp_all
  then show ?thesis by (simp add: ceil_div_def)
qed

lemma generateCardPositions_unbound:
  assumes "g ''effectiveWidth'' = None" "0 < pa_count a" "0 < pa_layers a"
  shows "generateCardPositions g rnd a k = Inl (ReferenceError ''effectiveWidth'')"
proof -
  have "0 < ceil_div (pa_count a) (pa_layers a)"
    using assms(2,3) by (rule ceil_div_pos)
  then show ?thesis
    unfolding generateCardPositions_def
    by (subst layerLoop.simps) (simp add: assms Let_def cardLoop_unbound)
qed

lemma cardLoop_bound:
  assumes gw: "g ''effectiveWidth'' = Some w" and gh: "g ''effectiveHeight'' = Some h"
  shows "n = nat (cardsInLayer - i) \<Longrightarrow> int (length positions) < pa_count a \<Longrightarrow> i \<le> cardsInLayer \<Longrightarrow>
     \<exists>ps k'. cardLoop g rnd a layerNo layerCols layerRows cardsInLayer i positions k = Inr (ps, k') \<and>
        int (length ps) = min (pa_count a) (int (length positions) + (cardsInLayer - i))"
proof (induction n arbitrary: i positions k)
  case 0
  then have "\<not> i < cardsInLayer" by simp
  with 0 show ?case by (subst cardLoop.simps) simp
next
  case (Suc n)
  then have lt: "i < cardsInLayer" by simp
  define p where "p = \<lparr>pos_x = pa_offsetX a + (w - real_of_int layerCols * (pa_cardSize a + pa_gap a)) / 2
                              + rnd k * (real_of_int layerCols - 1) * (pa_cardSize a + pa_gap a),
                         pos_y = pa_offsetY a + (h - real_of_int layerRows * (pa_cardSize a + pa_gap a)) / 2
                              + rnd (k + 1) * (real_of_int layerRows - 1) * (pa_cardSize a + pa_gap a),
                         pos_layer = layerNo\<rparr>"
  have step: "cardLoop g rnd a layerNo layerCols layerRows cardsInLayer i positions k
       = (if int (length (positions @ [p])) \<ge> pa_count a then Inr (positions @ [p], k + 2)
          else cardLoop g rnd a layerNo layerCols layerRows cardsInLayer (i + 1) (positions @ [p]) (k + 2))"
    using lt gw gh by (subst cardLoop.simps) (simp add: read_global_def Let_def p_def)
  show ?case
  proof (cases "int (length (positions @ [p])) \<ge> pa_count a")
    case True
    with lt Suc.prems show ?thesis unfolding step by simp
  next
    case False
    then have l: "int (length (positions @ [p])) < pa_count a" by simp
    from Suc.prems(1) lt have n: "n = nat (cardsInLayer - (i + 1))" by simp
    from lt have le: "i + 1 \<le> cardsInLayer" by simp
    from Suc.IH[OF n l le, of "k + 2"] False show ?thesis unfolding step by simp
  qed
qed

lemma ceil_div_mult_ge: "0 < b \<Longrightarrow> a \<le> ceil_div a b * b"
proof -
  assume b: "0 < b"
  have "(- a) div b * b \<le> - a"
    using b by (metis mult.commute mult_div_mod_eq add_increasing2 pos_mod_sign order_refl)
  then show ?thesis by (simp add: ceil_div_def)
qed


lemma layerLoop_bound:
  assumes gw: "g ''effectiveWidth'' = Some w" and gh: "g ''effectiveHeight'' = Some h"
    and c: "0 < pa_count a" and lp: "0 < pa_layers a"
  shows "n = nat (pa_layers a - layerNo) \<Longrightarrow> int (length positions) < pa_count a \<Longrightarrow>
     pa_count a \<le> int (length positions) + (pa_layers a - layerNo) * ceil_div (pa_count a) (pa_layers a) \<Longrightarrow>
     0 \<le> layerNo \<Longrightarrow>
     \<exists>ps k'. layerLoop g rnd a layerNo positions k = Inr (ps, k') \<and> int (length ps) = pa_count a"
proof (induction n arbitrary: layerNo positions k)
  case 0
  then have "pa_layers a - layerNo \<le> 0" by simp
  moreover have "0 < ceil_div (pa_count a) (pa_layers a)" using c lp by (rule ceil_div_pos)
  ultimately have "(pa_layers a - layerNo) * ceil_div (pa_count a) (pa_layers a) \<le> 0"
    by (simp add: mult_le_0_iff)
  with "0.prems"(2,3) show ?case by simp
next
  case (Suc n)
  then have lt: "layerNo < pa_layers a" by simp
  note lpos = lp
  define cil where "cil = ceil_div (pa_count a) (pa_layers a)"
  have cpos: "0 < cil" unfolding cil_def using c lpos by (rule ceil_div_pos)
  from cardLoop_bound[OF gw gh refl Suc.prems(2), of 0 cil rnd layerNo
      "max 3 (pa_cols a - layerNo * 2)" "max 3 (pa_rows a - layerNo * 2)" k] cpos
  obtain ps k' where cl: "cardLoop g rnd a layerNo (max 3 (pa_cols a - layerNo * 2))
       (max 3 (pa_rows a - layerNo * 2)) cil 0 positions k = Inr (ps, k')"
    and len: "int (length ps) = min (pa_count a) (int (length positions) + cil)"
    by auto
  have step: "layerLoop g rnd a layerNo positions k
       = (if int (length ps) \<ge> pa_count a then Inr (ps, k') else layerLoop g rnd a (layerNo + 1) ps k')"
    using lt by (subst layerLoop.simps) (simp add: Let_def cl[unfolded cil_def])
  show ?case
  proof (cases "int (length ps) \<ge> pa_count a")
    case True
    with len show ?thesis unfolding step by simp
  next
    case False
    then have l: "int (length ps) < pa_count a" by simp
    with len have len': "int (length ps) = int (length positions) + cil" by simp
    from Suc.prems(1) lt have n: "n = nat (pa_layers a - (layerNo + 1))" by simp
    have "pa_count a \<le> int (length ps) + (pa_layers a - (layerNo + 1)) * cil"
      using Suc.prems(3) unfolding len' cil_def by (simp add: algebra_simps)
    then have b: "pa_count a \<le> int (length ps) + (pa_layers a - (layerNo + 1)) * ceil_div (pa_count a) (pa_layers a)"
      unfolding cil_def .
    from Suc.prems(4) have nn: "0 \<le> layerNo + 1" by simp
    from Suc.IH[OF n l b nn, of k'] False show ?thesis unfolding step by simp
  qed
qed

lemma generateCardPositions_bound:
  assumes "g ''effectiveWidth'' = Some w" "g ''effectiveHeight'' = Some h"
    and "0 \<le> pa_count a" "0 < pa_layers a"
  shows "\<exists>ps k'. generateCardPositions g rnd a k = Inr (ps, k') \<and> int (length ps) = pa_count a"
proof (cases "pa_count a = 0")
  case True
  have "ceil_div 0 (pa_layers a) = 0" by (simp add: ceil_div_def)
  then have "cardLoop g rnd a 0 (max 3 (pa_cols a)) (max 3 (pa_rows a)) (ceil_div 0 (pa_layers a)) 0 [] k = Inr ([], k)"
    by (subst cardLoop.simps) simp
  then show ?thesis
    unfolding generateCardPositions_def using True assms(4)
    by (subst layerLoop.simps) (simp add: Let_def)
next
  case False
  with assms(3) have c: "0 < pa_count a" by simp
  have "pa_count a \<le> ceil_div (pa_count a) (pa_layers a) * pa_layers a"
    using assms(4) by (rule ceil_div_mult_ge)
  then have b: "pa_count a \<le> int (length ([]::position list)) + (pa_layers a - 0) * ceil_div (pa_count a) (pa_layers a)"
    by (simp add: mult.commute)
  from c have l: "int (length ([]::position list)) < pa_count a" by simp
  from layerLoop_bound[OF assms(1,2) c assms(4) refl l b, of rnd k] show ?thesis
    unfolding generateCardPositions_def by simp
qed


lemma length_shuffleLoop: "length (fst (shuffleLoop rnd i xs k)) = length xs"
  by (induction rnd i xs k rule: shuffleLoop.induct) (simp_all add: Let_def)

lemma length_shuffleArray: "length (fst (shuffleArray rnd xs k)) = length xs"
  by (simp add: shuffleArray_def length_shuffleLoop)

lemma generateLevelLayout_throws:
  assumes "g ''effectiveWidth'' = None" "0 < layers config"
    and "trimCardTypes config (buildCardTypes config) \<noteq> []"
  shows "generateLevelLayout g rnd k config cm area = Inl (ReferenceError ''effectiveWidth'')"
proof -
  obtain ts k1 where sh: "shuffleArray rnd (trimCardTypes config (buildCardTypes config)) k = (ts, k1)"
    by (cases "shuffleArray rnd (trimCardTypes config (buildCardTypes config)) k") auto
  from length_shuffleArray[of rnd "trimCardTypes config (buildCardTypes config)" k] sh assms(3)
  have "0 < int (length ts)" by simp
  then show ?thesis
    unfolding generateLevelLayout_def Let_def sh
    by (simp add: generateCardPositions_unbound assms(1,2))
qed

lemma generateLevelLayout_throws_level1:
  "generateLevelLayout script_globals rnd k (levelConfigOf 1) cm area = Inl (ReferenceError ''effectiveWidth'')"
proof (rule generateLevelLayout_throws)
  show "script_globals ''effectiveWidth'' = None" by (simp add: script_globals_def)
  show "0 < layers (levelConfigOf 1)" by (simp add: levelConfigOf_def)
  have "length (trimCardTypes (levelConfigOf 1) (buildCardTypes (levelConfigOf 1))) = 18"
    by (simp add: trimCardTypes_take length_buildCardTypes levelConfigOf_def ceil_div_def)
  then show "trimCardTypes (levelConfigOf 1) (buildCardTypes (levelConfigOf 1)) \<noteq> []" by auto
qed

text \<open>
  C6 says that the generator neither throws nor drops cards: \<open>generateCardPositions\<close>
  returns \<open>count\<close> positions. With the two identifiers bound, and at least one layer,
  it does (\<open>generateCardPositions_bound\<close>). In the program they are not bound: for 3
  cards on 1 layer the first pass of the inner loop throws a \<open>ReferenceError\<close>, and so
  does \<open>generateLevelLayout\<close> for the configuration of level 1.
\<close>

theorem generateCardPositions_throws:
  "generateCardPositions script_globals rnd
     \<lparr>pa_count = 3, pa_layers = 1, pa_cols = 5, pa_rows = 4, pa_areaWidth = 500,
      pa_areaHeight = 400, pa_cardSize = 70, pa_gap = 10, pa_offsetX = 20, pa_offsetY = 20\<rparr> k
   = Inl (ReferenceError ''effectiveWidth'')"
  by (rule generateCardPositions_unbound) (simp_all add: script_globals_def)

section \<open>Adding a score to a full leaderboard\<close>

lemma addScore_returns_true:
  assumes "0 < maxEntries lbm"
  shows "fst (addScore now defaultName sd lbm ls)"
proof -
  let ?e = "\<lparr>e_rank = 0, e_score = num_or (sd_score sd) 0, e_level = num_or (sd_level sd) 1,
             e_combo = num_or (sd_combo sd) 0, e_date = str_or (sd_date sd) now,
             e_playerName = str_or (sd_playerName sd) defaultName\<rparr>"
  let ?l3 = "take (maxEntries lbm) (sort_key (\<lambda>e. - e_score e) (leaderboard lbm @ [?e]))"
  have "length ?l3 > 0" using assms by simp
  then have "enumerate 0 ?l3 \<noteq> []" by (metis length_enumerate length_greater_0_conv)
  then obtain p ps where "enumerate 0 ?l3 = p # ps" by (cases "enumerate 0 ?l3") auto
  then show ?thesis by (simp add: addScore_def Let_def)
qed

text \<open>
  C8 says that adding a score below the lowest of a full list of ten leaves the list
  unchanged and reports that the entry did not enter. On the full list with the scores
  100, 90, \<dots>, 10, \<open>addScore\<close> with the score 5 leaves the list unchanged but returns
  \<open>true\<close>, as it does for every non-empty list (\<open>addScore_returns_true\<close>);
  \<open>canEnterLeaderboard\<close> answers \<open>false\<close> for that score.
\<close>

theorem addScore_lower_reports_entered:
  "addScore now defaultName
     \<lparr>sd_score = Some 5, sd_level = Some 1, sd_combo = Some 0, sd_date = Some ''2025-02-02'',
      sd_playerName = Some ''q''\<rparr> full_board empty_storage
   = (True, full_board, empty_storage\<lparr>tileGameLeaderboard := Some (leaderboard full_board)\<rparr>) \<and>
   \<not> canEnterLeaderboard full_board 5"
  by (simp add: addScore_def full_board_def sample_entry_def num_or_def str_or_def saveLeaderboard_def
      empty_storage_def canEnterLeaderboard_def Let_def)

lemma addScore_higher_evicts:
  "leaderboard (fst (snd (addScore now defaultName
     \<lparr>sd_score = Some 55, sd_level = Some 1, sd_combo = Some 0, sd_date = Some ''2025-01-01'',
      sd_playerName = Some ''p''\<rparr> full_board empty_storage)))
   = [sample_entry 1 100, sample_entry 2 90, sample_entry 3 80, sample_entry 4 70,
      sample_entry 5 60, sample_entry 6 55, sample_entry 7 50, sample_entry 8 40, sample_entry 9 30,
      sample_entry 10 20]"
  by (simp add: addScore_def full_board_def sample_entry_def num_or_def str_or_def saveLeaderboard_def
      empty_storage_def Let_def)


lemma renumber_id:
  assumes "\<forall>i<length xs. e_rank (xs ! i) = int i + 1"
  shows "map (\<lambda>(index, e). e\<lparr>e_rank := int index + 1\<rparr>) (enumerate 0 xs) = xs"
  using assms by (intro nth_equalityI) (simp_all add: nth_enumerate_eq)

lemma addScore_lower_keeps_list:
  assumes srt: "sorted (map (\<lambda>e. - e_score e) (leaderboard lbm))"
    and full: "length (leaderboard lbm) = maxEntries lbm"
    and low: "\<forall>e\<in>set (leaderboard lbm). num_or (sd_score sd) 0 < e_score e"
    and rk: "\<forall>i<length (leaderboard lbm). e_rank (leaderboard lbm ! i) = int i + 1"
  shows "fst (snd (addScore now defaultName sd lbm ls)) = lbm"
proof -
  let ?e = "\<lparr>e_rank = 0, e_score = num_or (sd_score sd) 0, e_level = num_or (sd_level sd) 1,
             e_combo = num_or (sd_combo sd) 0, e_date = str_or (sd_date sd) now,
             e_playerName = str_or (sd_playerName sd) defaultName\<rparr>"
  have "sorted (map (\<lambda>e. - e_score e) (leaderboard lbm @ [?e]))"
    using srt low by (auto simp: sorted_append less_imp_le)
  then have "sort_key (\<lambda>e. - e_score e) (leaderboard lbm @ [?e]) = leaderboard lbm @ [?e]"
    by (rule sort_key_id_if_sorted)
  then have "take (maxEntries lbm) (sort_key (\<lambda>e. - e_score e) (leaderboard lbm @ [?e])) = leaderboard lbm"
    using full by simp
  then show ?thesis
    by (simp add: addScore_def Let_def renumber_id[OF rk])
qed

section \<open>Clicks on cards\<close>

lemma click_disabled_ignored:
  "getCard (cardManager g) cardId = Some c \<Longrightarrow> isDisabled c \<Longrightarrow> cardClicked now defaultName cardId g = g"
  by (simp add: cardClicked_def)

lemma click_unknown_ignored:
  "getCard (cardManager g) cardId = None \<Longrightarrow> cardClicked now defaultName cardId g = g"
  by (simp add: cardClicked_def)

lemma first_click: "cardClicked now defaultName 0 fresh_game = slotted_game"
  by (simp add: cardClicked_def fresh_game_def slotted_game_def getCard_def new_Card_def
      handleCardClick_def addCard_def checkForElimination_def for_in_def Let_def moveToSlot_def
      updateCardStates_def checkOverlap_exact exact_sums_zero exact_sums_numeral enable_def disable_def checkGameState_def canContinue_def
      isFull_def)

text \<open>
  C9 says that a click on a disabled card or on a card that is already in a slot changes
  nothing. The listener ignores a disabled card (\<open>click_disabled_ignored\<close>), but it does
  not look at \<open>inSlot\<close>: in the game reached by one click on card 0
  (\<open>first_click\<close>), where that card is in slot 0 and not disabled, a second click event
  for card 0 puts the same card into slot 1 as well.
\<close>

theorem click_on_slotted_card_changes_slots:
  "getCard (cardManager slotted_game) 0 = Some ((new_Card 0 0 0 0 0)\<lparr>inSlot := True\<rparr>) \<and>
   slots (slotManager slotted_game)
     = [Some \<lparr>sid = 0, stype = 0\<rparr>, None, None, None, None, None, None] \<and>
   slots (slotManager (cardClicked now defaultName 0 slotted_game))
     = [Some \<lparr>sid = 0, stype = 0\<rparr>, Some \<lparr>sid = 0, stype = 0\<rparr>, None, None, None, None, None]"
  by (simp add: cardClicked_def fresh_game_def slotted_game_def getCard_def new_Card_def
      handleCardClick_def addCard_def checkForElimination_def for_in_def Let_def moveToSlot_def
      updateCardStates_def checkOverlap_exact exact_sums_zero exact_sums_numeral enable_def disable_def checkGameState_def canContinue_def
      isFull_def)

theorem click_on_slotted_card_changes_slots_witness:
  "slots (slotManager (cardClicked ''2025-03-03'' ''player'' 0 slotted_game))
     = [Some \<lparr>sid = 0, stype = 0\<rparr>, Some \<lparr>sid = 0, stype = 0\<rparr>, None, None, None, None, None] \<and>
   slots (slotManager (cardClicked ''2025-03-03'' ''player'' 0 slotted_game))
     \<noteq> slots (slotManager slotted_game)"
proof -
  from click_on_slotted_card_changes_slots[of "''2025-03-03''" "''player''"]
  have a: "slots (slotManager slotted_game)
       = [Some \<lparr>sid = 0, stype = 0\<rparr>, None, None, None, None, None, None]"
    and b: "slots (slotManager (cardClicked ''2025-03-03'' ''player'' 0 slotted_game))
       = [Some \<lparr>sid = 0, stype = 0\<rparr>, Some \<lparr>sid = 0, stype = 0\<rparr>, None, None, None, None, None]"
    by blast+
  show ?thesis unfolding a b by simp
qed

end
